theory Spec2Isabelle
  imports Main "HOL-Library.Sublist"
begin

section \<open>JavaScript strings\<close>

text \<open>
  A JavaScript string is modelled by its sequence of code units, one \<^typ>\<open>char\<close> per code
  unit, which covers the code units U+0000 to U+00FF. The built-in methods the sources call
  (\<^verbatim>\<open>trim\<close>, \<^verbatim>\<open>toLowerCase\<close>, \<^verbatim>\<open>includes\<close>) are given on that range; a string is
  truthy when it is not empty.
\<close>

definition isWhiteSpace :: "char \<Rightarrow> bool" where
  "isWhiteSpace c =
     (let n = (of_char c :: nat) in (9 \<le> n \<and> n \<le> 13) \<or> n = 32 \<or> n = 160)"

definition trim :: "string \<Rightarrow> string" where
  "trim s = rev (dropWhile isWhiteSpace (rev (dropWhile isWhiteSpace s)))"

definition toLowerCaseChar :: "char \<Rightarrow> char" where
  "toLowerCaseChar c =
     (let n = (of_char c :: nat)
      in if (65 \<le> n \<and> n \<le> 90) \<or> (192 \<le> n \<and> n \<le> 222 \<and> n \<noteq> 215)
         then char_of (n + 32) else c)"

definition toLowerCase :: "string \<Rightarrow> string" where
  "toLowerCase s = map toLowerCaseChar s"

text \<open>\<^verbatim>\<open>s.includes(t)\<close>: \<open>t\<close> occurs in \<open>s\<close> as a contiguous run.\<close>

fun js_includes :: "string \<Rightarrow> string \<Rightarrow> bool" where
  "js_includes [] t = (t = [])"
| "js_includes (c # s) t = (prefix t (c # s) \<or> js_includes s t)"

section \<open>Exceptions and commands\<close>

text \<open>
  A piece of synchronous code is a command on a state: it returns the state it leaves behind
  together with the exception it threw, if any. \<open>seq\<close> is statement sequencing (an
  exception skips what follows), \<open>try_catch\<close> is \<^verbatim>\<open>try { ... } catch {}\<close>.
\<close>

datatype js_error = TypeError | InvalidStateError | Error string

type_synonym 's cmd = "'s \<Rightarrow> js_error option \<times> 's"

definition ret :: "'s cmd" where
  "ret s = (None, s)"

definition throw :: "js_error \<Rightarrow> 's cmd" where
  "throw e s = (Some e, s)"

definition modify :: "('s \<Rightarrow> 's) \<Rightarrow> 's cmd" where
  "modify u s = (None, u s)"

definition seq :: "'s cmd \<Rightarrow> 's cmd \<Rightarrow> 's cmd" where
  "seq f g s = (case f s of (None, s') \<Rightarrow> g s' | (Some e, s') \<Rightarrow> (Some e, s'))"

definition try_catch :: "'s cmd \<Rightarrow> 's cmd" where
  "try_catch f s = (None, snd (f s))"

text \<open>
  What a call into the browser or the SDK does is the environment's choice: it returns or it
  throws.
\<close>

datatype outcome = Returns | Throws

section \<open>The Deepgram payload\<close>

record dg_alternative =
  transcript :: string

record dg_channel =
  alternatives :: "dg_alternative list"

record DeepgramTranscriptData =
  channel :: dg_channel
  is_final :: bool

text \<open>\<^verbatim>\<open>alternatives[0]\<close>: \<^verbatim>\<open>undefined\<close> (here \<open>None\<close>) on an empty array.\<close>

definition first_alternative :: "DeepgramTranscriptData \<Rightarrow> dg_alternative option" where
  "first_alternative d = (case alternatives (channel d) of [] \<Rightarrow> None | a # _ \<Rightarrow> Some a)"

section \<open>The hook useDeepgramVoice\<close>

text \<open>
  Every call of \<^verbatim>\<open>startVoice\<close> has its own local variables (the stream, the recorder and
  the connection it creates), which its event handlers keep reaching through their closures
  after the refs have been reset. The objects of the \<open>k\<close>-th call are the record
  \<open>objs w k\<close>; a ref holds the number of the call whose object it points to.
\<close>

datatype phase = NotCalled | AwaitingToken | AwaitingMicrophone | Wired | Returned

datatype rec_state = Inactive | Recording

record invocation =
  phase :: phase
  streamLive :: bool
  recorder :: rec_state
  stopScheduled :: bool
  connOpen :: bool
  stopCalls :: nat
  finishCalls :: nat
  chunksSent :: nat

record voice_hook =
  dgConnRef :: "nat option"
  recorderRef :: "nat option"
  bufferRef :: string
  isVoiceActive :: bool
  liveTranscript :: string
  objs :: "nat \<Rightarrow> invocation"
  nextCall :: nat
  onTranscriptUpdate_calls :: "string list"
  onError_calls :: "string list"

definition no_objects :: invocation where
  "no_objects = \<lparr>phase = NotCalled, streamLive = False, recorder = Inactive,
     stopScheduled = False, connOpen = False, stopCalls = 0, finishCalls = 0,
     chunksSent = 0\<rparr>"

definition initial_hook :: voice_hook where
  "initial_hook = \<lparr>dgConnRef = None, recorderRef = None, bufferRef = [],
     isVoiceActive = False, liveTranscript = [], objs = (\<lambda>_. no_objects), nextCall = 0,
     onTranscriptUpdate_calls = [], onError_calls = []\<rparr>"

definition update_obj :: "nat \<Rightarrow> (invocation \<Rightarrow> invocation) \<Rightarrow> voice_hook \<Rightarrow> voice_hook" where
  "update_obj k u w = w\<lparr>objs := (objs w)(k := u (objs w k))\<rparr>"

subsection \<open>The Transcript handler\<close>

text \<open>
  \<^verbatim>\<open>const txt = data.channel.alternatives[0]?.transcript.trim()\<close>: the optional chain gives
  \<^verbatim>\<open>undefined\<close> when there is no first alternative.
\<close>

definition transcript_txt :: "DeepgramTranscriptData \<Rightarrow> string option" where
  "transcript_txt d = map_option (\<lambda>a. trim (transcript a)) (first_alternative d)"

definition truthy :: "string option \<Rightarrow> bool" where
  "truthy t = (case t of None \<Rightarrow> False | Some s \<Rightarrow> s \<noteq> [])"

definition onTranscript :: "DeepgramTranscriptData \<Rightarrow> voice_hook cmd" where
  "onTranscript d w =
     (let txt = transcript_txt d in
      if truthy txt \<and> is_final d then
        (let b = bufferRef w @ (if bufferRef w \<noteq> [] then '' '' else []) @ the txt
         in (None, w\<lparr>bufferRef := b, liveTranscript := b,
                     onTranscriptUpdate_calls := onTranscriptUpdate_calls w @ [b]\<rparr>))
      else if truthy txt then
        (None, w\<lparr>liveTranscript := bufferRef w @ '' '' @ the txt\<rparr>)
      else (None, w))"

text \<open>
  An event emitter runs a handler and carries on whatever the handler throws: delivering an
  event leaves the state the handler left.
\<close>

definition deliver :: "'s cmd \<Rightarrow> 's \<Rightarrow> 's" where
  "deliver h w = snd (h w)"

definition transcripts :: "DeepgramTranscriptData list \<Rightarrow> voice_hook \<Rightarrow> voice_hook" where
  "transcripts ds w = fold (\<lambda>d. deliver (onTranscript d)) ds w"

text \<open>The payloads of the recognition events of the specification.\<close>

definition PartialText :: "string \<Rightarrow> DeepgramTranscriptData" where
  "PartialText t = \<lparr>channel = \<lparr>alternatives = [\<lparr>transcript = t\<rparr>]\<rparr>, is_final = False\<rparr>"

definition FinalText :: "string \<Rightarrow> DeepgramTranscriptData" where
  "FinalText t = \<lparr>channel = \<lparr>alternatives = [\<lparr>transcript = t\<rparr>]\<rparr>, is_final = True\<rparr>"

subsection \<open>Calls on the recorder and the connection\<close>

text \<open>
  \<^verbatim>\<open>MediaRecorder.stop()\<close> on a recording recorder makes it inactive and queues its
  \<^verbatim>\<open>stop\<close> event; \<^verbatim>\<open>MediaRecorder.start()\<close> throws on a recorder that is not inactive.
  The counters record that a call was made, whatever it did.
\<close>

definition MediaRecorder_stop :: "outcome \<Rightarrow> nat \<Rightarrow> voice_hook cmd" where
  "MediaRecorder_stop oc k w =
     (let w' = update_obj k (\<lambda>r. r\<lparr>stopCalls := Suc (stopCalls r)\<rparr>) w in
      case oc of
        Throws \<Rightarrow> (Some InvalidStateError, w')
      | Returns \<Rightarrow>
          (None, update_obj k (\<lambda>r. if recorder r = Recording
                                    then r\<lparr>recorder := Inactive, stopScheduled := True\<rparr>
                                    else r) w'))"

definition MediaRecorder_start :: "nat \<Rightarrow> voice_hook cmd" where
  "MediaRecorder_start k w =
     (if recorder (objs w k) = Inactive
      then (None, update_obj k (\<lambda>r. r\<lparr>recorder := Recording\<rparr>) w)
      else (Some InvalidStateError, w))"

definition connection_finish :: "outcome \<Rightarrow> nat \<Rightarrow> voice_hook cmd" where
  "connection_finish oc k w =
     (let w' = update_obj k (\<lambda>r. r\<lparr>finishCalls := Suc (finishCalls r)\<rparr>) w in
      case oc of
        Throws \<Rightarrow> (Some (Error ''finish''), w')
      | Returns \<Rightarrow> (None, w'))"

subsection \<open>cleanupVoice, startVoice and the handlers startVoice registers\<close>

definition cleanupVoice :: "outcome \<Rightarrow> outcome \<Rightarrow> voice_hook cmd" where
  "cleanupVoice o1 o2 =
     seq (try_catch (\<lambda>w. case recorderRef w of
                            None \<Rightarrow> ret w
                          | Some k \<Rightarrow> MediaRecorder_stop o1 k w))
    (seq (try_catch (\<lambda>w. case dgConnRef w of
                            None \<Rightarrow> ret w
                          | Some k \<Rightarrow> connection_finish o2 k w))
         (modify (\<lambda>w. w\<lparr>recorderRef := None, dgConnRef := None, isVoiceActive := False,
                          liveTranscript := [], bufferRef := []\<rparr>)))"

text \<open>
  \<^verbatim>\<open>startVoice\<close> is an async function: it runs to its first \<^verbatim>\<open>await\<close> (the token
  fetch), and each later piece runs when the awaited promise settles.
\<close>

definition startVoice :: "outcome \<Rightarrow> outcome \<Rightarrow> voice_hook cmd" where
  "startVoice o1 o2 =
     seq (cleanupVoice o1 o2)
         (modify (\<lambda>w. (update_obj (nextCall w) (\<lambda>r. r\<lparr>phase := AwaitingToken\<rparr>)
                          (w\<lparr>isVoiceActive := True, liveTranscript := [], bufferRef := []\<rparr>))
                       \<lparr>nextCall := Suc (nextCall w)\<rparr>))"

text \<open>
  The token request settles: the fetch (or the parsing of its body) rejects with a reason, or
  it gives an object whose \<^verbatim>\<open>token\<close> field is a string or is missing.
\<close>

datatype token_response = FetchRejected string | TokenJson "string option"

definition startVoice_token :: "nat \<Rightarrow> token_response \<Rightarrow> voice_hook cmd" where
  "startVoice_token k r w =
     (let failed = (\<lambda>err.
            (None, update_obj k (\<lambda>r. r\<lparr>phase := Returned\<rparr>)
                     (w\<lparr>onError_calls :=
                          onError_calls w @ [''Could not fetch Deepgram token: '' @ err],
                        isVoiceActive := False\<rparr>)))
      in case r of
           FetchRejected err \<Rightarrow> failed err
         | TokenJson t \<Rightarrow>
             if truthy t
             then (None, update_obj k (\<lambda>r. r\<lparr>phase := AwaitingMicrophone\<rparr>) w)
             else failed ''Error: No Deepgram token'')"

datatype microphone_response = Granted | Denied string

text \<open>
  With the microphone granted, the rest of \<^verbatim>\<open>startVoice\<close> runs in one piece: it creates the
  recorder (inactive) on the stream, stores it in \<^verbatim>\<open>recorderRef\<close>, creates the connection,
  stores it in \<^verbatim>\<open>dgConnRef\<close> and registers the handlers.
\<close>

definition startVoice_microphone :: "nat \<Rightarrow> microphone_response \<Rightarrow> voice_hook cmd" where
  "startVoice_microphone k r w =
     (case r of
        Denied err \<Rightarrow>
          (None, update_obj k (\<lambda>r. r\<lparr>phase := Returned\<rparr>)
                   (w\<lparr>onError_calls :=
                        onError_calls w @ [''Could not access microphone: '' @ err],
                      isVoiceActive := False\<rparr>))
      | Granted \<Rightarrow>
          (None, (update_obj k (\<lambda>r. r\<lparr>phase := Wired, streamLive := True,
                                        recorder := Inactive\<rparr>) w)
                   \<lparr>recorderRef := Some k, dgConnRef := Some k\<rparr>))"

definition onOpen :: "nat \<Rightarrow> voice_hook cmd" where
  "onOpen k = MediaRecorder_start k"

definition onDataAvailable :: "nat \<Rightarrow> voice_hook cmd" where
  "onDataAvailable k = modify (update_obj k (\<lambda>r. r\<lparr>chunksSent := Suc (chunksSent r)\<rparr>))"

definition recorder_onstop :: "outcome \<Rightarrow> nat \<Rightarrow> voice_hook cmd" where
  "recorder_onstop oc k =
     seq (modify (\<lambda>w. update_obj k (\<lambda>r. r\<lparr>streamLive := False\<rparr>) (w\<lparr>isVoiceActive := False\<rparr>)))
         (try_catch (connection_finish oc k))"

subsection \<open>The hook on its event loop\<close>

text \<open>
  What happens to the hook, one event at a time: the user calls \<^verbatim>\<open>startVoice\<close> or
  \<^verbatim>\<open>stopVoice\<close> (which is \<^verbatim>\<open>cleanupVoice\<close>), a promise of the \<open>k\<close>-th call settles, or an
  object of the \<open>k\<close>-th call fires an event. The environment delivers an event only when
  it can occur: a promise settles once, and only after it was awaited; a connection opens once
  and delivers transcripts once open; a recorder gives data only once started and fires
  \<^verbatim>\<open>stop\<close> only after a call of \<^verbatim>\<open>stop()\<close> that stopped it. Otherwise the event does nothing.
\<close>

datatype event =
    StartVoice outcome outcome
  | StopVoice outcome outcome
  | TokenResponse nat token_response
  | MicrophoneResponse nat microphone_response
  | Open nat
  | Transcript nat DeepgramTranscriptData
  | DataAvailable nat
  | RecorderStop nat outcome

fun step :: "event \<Rightarrow> voice_hook \<Rightarrow> voice_hook" where
  "step (StartVoice o1 o2) w = deliver (startVoice o1 o2) w"
| "step (StopVoice o1 o2) w = deliver (cleanupVoice o1 o2) w"
| "step (TokenResponse k r) w =
     (if phase (objs w k) = AwaitingToken then deliver (startVoice_token k r) w else w)"
| "step (MicrophoneResponse k r) w =
     (if phase (objs w k) = AwaitingMicrophone
      then deliver (startVoice_microphone k r) w else w)"
| "step (Open k) w =
     (if phase (objs w k) = Wired \<and> \<not> connOpen (objs w k)
      then deliver (onOpen k) (update_obj k (\<lambda>r. r\<lparr>connOpen := True\<rparr>) w) else w)"
| "step (Transcript k d) w =
     (if phase (objs w k) = Wired \<and> connOpen (objs w k)
      then deliver (onTranscript d) w else w)"
| "step (DataAvailable k) w =
     (if recorder (objs w k) = Recording \<or> stopScheduled (objs w k)
      then deliver (onDataAvailable k) w else w)"
| "step (RecorderStop k oc) w =
     (if stopScheduled (objs w k)
      then deliver (recorder_onstop oc k) (update_obj k (\<lambda>r. r\<lparr>stopScheduled := False\<rparr>) w)
      else w)"

definition run :: "event list \<Rightarrow> voice_hook \<Rightarrow> voice_hook" where
  "run es w = fold step es w"

section \<open>The hook useLiveTranscription\<close>

text \<open>
  This hook reaches its objects through its refs only, so a ref holds the object itself, and
  \<open>lt_phase\<close> is where the call of \<^verbatim>\<open>startListening\<close> in flight is suspended.
\<close>

record live_connection =
  lc_finishCalls :: nat
  lc_chunks :: nat
  lc_open :: bool

record media_stream =
  ms_live :: bool

record media_recorder =
  mr_state :: rec_state
  mr_stopCalls :: nat

record listen_hook =
  isListening :: bool
  transcript_state :: string
  error_state :: "string option"
  deepgramRef :: "live_connection option"
  mediaStreamRef :: "media_stream option"
  mediaRecorderRef :: "media_recorder option"
  lt_bufferRef :: string
  lt_phase :: phase

definition initial_listen :: listen_hook where
  "initial_listen = \<lparr>isListening = False, transcript_state = [], error_state = None,
     deepgramRef = None, mediaStreamRef = None, mediaRecorderRef = None, lt_bufferRef = [],
     lt_phase = NotCalled\<rparr>"

text \<open>
  \<^verbatim>\<open>const transcriptText = data.channel.alternatives[0].transcript\<close>: reading a property of
  \<^verbatim>\<open>undefined\<close> throws a TypeError. The handler does not read \<^verbatim>\<open>is_final\<close>.
\<close>

definition lt_onTranscript :: "DeepgramTranscriptData \<Rightarrow> listen_hook cmd" where
  "lt_onTranscript d h =
     (case first_alternative d of
        None \<Rightarrow> (Some TypeError, h)
      | Some a \<Rightarrow>
          (let transcriptText = transcript a in
           if transcriptText \<noteq> [] then
             (let b = lt_bufferRef h @ (if lt_bufferRef h \<noteq> [] then '' '' else [])
                        @ transcriptText
              in (None, h\<lparr>lt_bufferRef := b, transcript_state := b\<rparr>))
           else (None, h)))"

definition lt_transcripts :: "DeepgramTranscriptData list \<Rightarrow> listen_hook \<Rightarrow> listen_hook" where
  "lt_transcripts ds h = fold (\<lambda>d. deliver (lt_onTranscript d)) ds h"

subsection \<open>startListening and stopListening\<close>

text \<open>
  \<^verbatim>\<open>fetchDeepgramToken\<close> gives \<^verbatim>\<open>null\<close> after setting the error when the request fails or
  has no token; \<^verbatim>\<open>startListening\<close> then returns. With a token it creates the connection,
  registers the Transcript handler and asks for the microphone.
\<close>

definition startListening_token :: "token_response \<Rightarrow> listen_hook cmd" where
  "startListening_token r h =
     (let failed = (None, h\<lparr>error_state := Some ''Could not fetch Deepgram token'',
                             lt_phase := Returned\<rparr>)
      in case r of
           FetchRejected err \<Rightarrow> failed
         | TokenJson t \<Rightarrow>
             if truthy t
             then (None, h\<lparr>deepgramRef :=
                              Some \<lparr>lc_finishCalls = 0, lc_chunks = 0, lc_open = False\<rparr>,
                            lt_phase := AwaitingMicrophone\<rparr>)
             else failed)"

text \<open>
  With the microphone granted it stores the stream, creates the recorder, stores it, sets
  \<^verbatim>\<open>ondataavailable\<close> and calls \<^verbatim>\<open>mediaRecorder.start(250)\<close> at once.
\<close>

definition startListening_microphone :: "microphone_response \<Rightarrow> listen_hook cmd" where
  "startListening_microphone r h =
     (case r of
        Denied err \<Rightarrow>
          (None, h\<lparr>error_state := Some (''Microphone error: '' @ err), lt_phase := Returned\<rparr>)
      | Granted \<Rightarrow>
          (None, h\<lparr>mediaStreamRef := Some \<lparr>ms_live = True\<rparr>,
                    mediaRecorderRef := Some \<lparr>mr_state = Recording, mr_stopCalls = 0\<rparr>,
                    isListening := True, lt_phase := Wired\<rparr>))"

text \<open>
  \<^verbatim>\<open>ondataavailable\<close>: a chunk that is not empty is sent to the connection in
  \<^verbatim>\<open>deepgramRef\<close>, if there is one.
\<close>

definition lt_ondataavailable :: "nat \<Rightarrow> listen_hook cmd" where
  "lt_ondataavailable sz h =
     (case deepgramRef h of
        Some c \<Rightarrow>
          if 0 < sz then (None, h\<lparr>deepgramRef := Some (c\<lparr>lc_chunks := Suc (lc_chunks c)\<rparr>)\<rparr>)
          else (None, h)
      | None \<Rightarrow> (None, h))"

definition lt_recorder_stop :: "outcome \<Rightarrow> media_recorder \<Rightarrow> listen_hook cmd" where
  "lt_recorder_stop oc r h =
     (case oc of
        Throws \<Rightarrow>
          (Some InvalidStateError,
           h\<lparr>mediaRecorderRef := Some (r\<lparr>mr_stopCalls := Suc (mr_stopCalls r)\<rparr>)\<rparr>)
      | Returns \<Rightarrow>
          (None, h\<lparr>mediaRecorderRef :=
                     Some (r\<lparr>mr_state := Inactive, mr_stopCalls := Suc (mr_stopCalls r)\<rparr>)\<rparr>))"

definition lt_connection_finish :: "outcome \<Rightarrow> live_connection \<Rightarrow> listen_hook cmd" where
  "lt_connection_finish oc c h =
     (let h' = h\<lparr>deepgramRef := Some (c\<lparr>lc_finishCalls := Suc (lc_finishCalls c)\<rparr>)\<rparr> in
      case oc of
        Throws \<Rightarrow> (Some (Error ''finish''), h')
      | Returns \<Rightarrow> (None, h'))"

text \<open>No call in \<^verbatim>\<open>stopListening\<close> is inside a \<^verbatim>\<open>try\<close>.\<close>

definition stopListening :: "outcome \<Rightarrow> outcome \<Rightarrow> listen_hook cmd" where
  "stopListening o1 o2 =
     seq (\<lambda>h. case mediaRecorderRef h of
                 Some r \<Rightarrow> if mr_state r \<noteq> Inactive then lt_recorder_stop o1 r h else ret h
               | None \<Rightarrow> ret h)
    (seq (modify (\<lambda>h. case mediaStreamRef h of
                         Some s \<Rightarrow> h\<lparr>mediaStreamRef := Some (s\<lparr>ms_live := False\<rparr>)\<rparr>
                       | None \<Rightarrow> h))
    (seq (\<lambda>h. case deepgramRef h of
                 Some c \<Rightarrow> lt_connection_finish o2 c h
               | None \<Rightarrow> ret h)
         (modify (\<lambda>h. h\<lparr>isListening := False\<rparr>))))"

text \<open>
  The events of this hook. The connection opening is the environment's: the hook registers no
  handler for it. \<^verbatim>\<open>startListening\<close> opens the connection without
  \<^verbatim>\<open>interim_results\<close>, so the connection delivers final results only: a payload that is
  not final is never delivered to this hook.
\<close>

datatype lt_event =
    StartListening
  | StopListening outcome outcome
  | LtTokenResponse token_response
  | LtMicrophoneResponse microphone_response
  | LtOpen
  | LtTranscript DeepgramTranscriptData
  | LtDataAvailable nat

fun lt_step :: "lt_event \<Rightarrow> listen_hook \<Rightarrow> listen_hook" where
  "lt_step StartListening h = h\<lparr>lt_phase := AwaitingToken\<rparr>"
| "lt_step (StopListening o1 o2) h = deliver (stopListening o1 o2) h"
| "lt_step (LtTokenResponse r) h =
     (if lt_phase h = AwaitingToken then deliver (startListening_token r) h else h)"
| "lt_step (LtMicrophoneResponse r) h =
     (if lt_phase h = AwaitingMicrophone then deliver (startListening_microphone r) h else h)"
| "lt_step LtOpen h =
     (case deepgramRef h of
        Some c \<Rightarrow> h\<lparr>deepgramRef := Some (c\<lparr>lc_open := True\<rparr>)\<rparr>
      | None \<Rightarrow> h)"
| "lt_step (LtTranscript d) h =
     (if deepgramRef h \<noteq> None \<and> is_final d then deliver (lt_onTranscript d) h else h)"
| "lt_step (LtDataAvailable sz) h =
     (case mediaRecorderRef h of
        Some r \<Rightarrow> if mr_state r = Recording then deliver (lt_ondataavailable sz) h else h
      | None \<Rightarrow> h)"

definition lt_run :: "lt_event list \<Rightarrow> listen_hook \<Rightarrow> listen_hook" where
  "lt_run es h = fold lt_step es h"

section \<open>The command router\<close>

text \<open>
  \<^verbatim>\<open>handleTranscriptUpdate\<close> gives the actions it invokes, in order: the four handlers are
  the values of \<open>action\<close>.
\<close>

datatype action =
    handleCreateCourseButtonClick
  | handleJoinCourseAction
  | handleSubmitTaskAction
  | handleFallbackAction

definition handleTranscriptUpdate :: "string \<Rightarrow> action list" where
  "handleTranscriptUpdate t =
     (let normalizedTranscript = toLowerCase t in
      if js_includes normalizedTranscript ''create course'' then [handleCreateCourseButtonClick]
      else if js_includes normalizedTranscript ''join course'' then [handleJoinCourseAction]
      else if js_includes normalizedTranscript ''submit task'' then [handleSubmitTaskAction]
      else [handleFallbackAction])"

section \<open>The component DeepgramVoiceInput\<close>

text \<open>
  The component hands its own props \<^verbatim>\<open>onTranscriptUpdate\<close> and \<^verbatim>\<open>onError\<close> to the hook and
  gives \<^verbatim>\<open>startVoice\<close> and \<^verbatim>\<open>stopVoice\<close> to its buttons. It defines
  \<^verbatim>\<open>handleTranscriptUpdate\<close> and the four handlers, whose effects are calls of
  \<^verbatim>\<open>router.push\<close> and of \<^verbatim>\<open>console.log\<close>; \<^verbatim>\<open>handleTranscriptUpdate\<close> occurs nowhere else
  in the component, so no event reaches it.
\<close>

record voice_input =
  vi_hook :: voice_hook
  router_push_calls :: "string list"
  console_log_calls :: "string list"

definition initial_voice_input :: voice_input where
  "initial_voice_input =
     \<lparr>vi_hook = initial_hook, router_push_calls = [], console_log_calls = []\<rparr>"

fun perform :: "action \<Rightarrow> voice_input \<Rightarrow> voice_input" where
  "perform handleCreateCourseButtonClick c =
     c\<lparr>router_push_calls := router_push_calls c @ [''/school/admin/create'']\<rparr>"
| "perform handleJoinCourseAction c =
     c\<lparr>router_push_calls := router_push_calls c @ [''/courses/join'']\<rparr>"
| "perform handleSubmitTaskAction c =
     c\<lparr>console_log_calls := console_log_calls c @ [''User is attempting to submit a task.'']\<rparr>"
| "perform handleFallbackAction c =
     c\<lparr>console_log_calls :=
         console_log_calls c @ [''Sorry, I didn't understand that. Could you please repeat?'']\<rparr>"

definition voice_input_step :: "event \<Rightarrow> voice_input \<Rightarrow> voice_input" where
  "voice_input_step ev c = c\<lparr>vi_hook := step ev (vi_hook c)\<rparr>"

definition voice_input_run :: "event list \<Rightarrow> voice_input \<Rightarrow> voice_input" where
  "voice_input_run es c = fold voice_input_step es c"

section \<open>The highlight correlator of VapiWidget\<close>

text \<open>The entries of the object literal, in the order \<^verbatim>\<open>Object.entries\<close> gives them.\<close>

definition UI_ELEMENT_MAP :: "(string \<times> string) list" where
  "UI_ELEMENT_MAP =
     [(''create account'', ''#create-account-btn''),
      (''sign up'', ''#signup-button''),
      (''signup'', ''#signup-button''),
      (''email'', ''#email-input''),
      (''email field'', ''#email-input''),
      (''password'', ''#password-input''),
      (''password field'', ''#password-input''),
      (''confirm password'', ''#confirm-password-input''),
      (''mark complete'', ''#mark-complete-btn''),
      (''next task'', ''#next-task-btn''),
      (''next'', ''#next-task-btn''),
      (''previous task'', ''#prev-task-btn''),
      (''previous'', ''#prev-task-btn''),
      (''the quiz'', ''#quiz-container''),
      (''quiz'', ''#quiz-container''),
      (''create course'', ''#create-course-btn''),
      (''join course'', ''#join-course-btn''),
      (''course name'', ''#course-name-input''),
      (''course code'', ''#course-code-input''),
      (''enroll'', ''#enroll-btn''),
      (''enrollment'', ''#enroll-btn''),
      (''your courses'', ''#course-grid''),
      (''list of courses'', ''#course-grid''),
      (''course list'', ''#course-grid''),
      (''courses'', ''#course-grid''),
      (''submit'', ''#submit-btn''),
      (''submit task'', ''#submit-task-btn''),
      (''upload'', ''#upload-btn''),
      (''storage queue'', ''.storage-queue-icon''),
      (''storage-queue'', ''.storage-queue-icon''),
      (''offline submit'', ''#offline-submit-btn''),
      (''file upload'', ''#file-upload-input''),
      (''dashboard'', ''#dashboard-link''),
      (''profile'', ''#profile-link''),
      (''settings'', ''#settings-link'')]"

definition INTERACTION_KEYWORDS :: "string list" where
  "INTERACTION_KEYWORDS =
     [''click'', ''tap'', ''press'', ''select'', ''choose'', ''find'', ''look for'',
      ''go to'', ''navigate'', ''open'', ''access'', ''enter'', ''fill'', ''type'']"

text \<open>The result is the pair \<^verbatim>\<open>{ elementName, selector }\<close>, or \<^verbatim>\<open>null\<close>.\<close>

definition parseForUIElements :: "string \<Rightarrow> (string \<times> string) option" where
  "parseForUIElements text =
     (let lowercaseText = toLowerCase text;
          hasInteractionKeyword =
            list_ex (\<lambda>keyword. js_includes lowercaseText keyword) INTERACTION_KEYWORDS
      in if \<not> hasInteractionKeyword then None
         else find (\<lambda>(elementName, selector).
                      js_includes lowercaseText (toLowerCase elementName)) UI_ELEMENT_MAP)"

text \<open>
  The page is what \<^verbatim>\<open>document.querySelector\<close> finds for a selector; elements are numbered.
  \<open>highlighted\<close> is the set of elements that carry the class \<^verbatim>\<open>vapi-highlight\<close>.
  \<open>clock\<close> is the time in milliseconds, and \<open>timeouts\<close> holds the pending
  \<^verbatim>\<open>setTimeout\<close> callbacks with the times at which they are due, the earliest first.
\<close>

type_synonym page = "string \<Rightarrow> nat option"

datatype timeout_callback = DelayedHighlight string string | ExpireHighlight nat

text \<open>
  Every run of the effect creates a Vapi instance and registers its handlers on it. The
  handlers call the \<^verbatim>\<open>clearHighlight\<close> of the render in which the effect ran:
  \<open>captured\<close> is the value of \<^verbatim>\<open>currentHighlight\<close> that callback was created with.
  \<open>vapi\<close> is the state variable of that name: the number of the latest instance.
\<close>

datatype call_state = NoCall | Active | Stopping

record vapi_instance =
  captured :: "string option"
  call :: call_state

record widget =
  highlighted :: "nat set"
  currentHighlight :: "string option"
  clock :: nat
  timeouts :: "(nat \<times> timeout_callback) list"
  isConnected :: bool
  isSpeaking :: bool
  transcript_log :: "(string \<times> string) list"
  instances :: "nat \<Rightarrow> vapi_instance"
  vapi :: nat

text \<open>The widget once mounted: the effect has run once, in the first render.\<close>

definition initial_widget :: widget where
  "initial_widget = \<lparr>highlighted = {}, currentHighlight = None, clock = 0, timeouts = [],
     isConnected = False, isSpeaking = False, transcript_log = [],
     instances = (\<lambda>_. \<lparr>captured = None, call = NoCall\<rparr>), vapi = 0\<rparr>"

text \<open>
  \<^verbatim>\<open>setTimeout\<close>: the callback is queued at its due time, behind the callbacks that are due
  no later.
\<close>

fun schedule ::
  "nat \<Rightarrow> timeout_callback \<Rightarrow> (nat \<times> timeout_callback) list \<Rightarrow> (nat \<times> timeout_callback) list"
where
  "schedule due cb [] = [(due, cb)]"
| "schedule due cb ((d, c) # ts) =
     (if due < d then (due, cb) # (d, c) # ts else (d, c) # schedule due cb ts)"

text \<open>
  \<^verbatim>\<open>highlightElement\<close>: when the element is found, the class is removed from every element
  that carries it and added to the element found.
\<close>

definition highlightElement :: "page \<Rightarrow> string \<Rightarrow> string \<Rightarrow> widget cmd" where
  "highlightElement pg selector elementName =
     try_catch (\<lambda>w.
       case pg selector of
         Some element \<Rightarrow>
           (None, w\<lparr>highlighted := insert element (highlighted w - highlighted w),
                     currentHighlight := Some selector,
                     timeouts := schedule (clock w + 5000) (ExpireHighlight element)
                                   (timeouts w)\<rparr>)
       | None \<Rightarrow> (None, w))"

text \<open>
  \<^verbatim>\<open>clearHighlight\<close> is a callback over the state variable \<^verbatim>\<open>currentHighlight\<close>: it
  reads the value it was created with, which is its argument here.
\<close>

definition clearHighlight :: "page \<Rightarrow> string option \<Rightarrow> widget cmd" where
  "clearHighlight pg current w =
     (if truthy current then
        (let w' = (case pg (the current) of
                     Some element \<Rightarrow> w\<lparr>highlighted := highlighted w - {element}\<rparr>
                   | None \<Rightarrow> w)
         in (None, w'\<lparr>currentHighlight := None\<rparr>))
      else (None, w))"

definition run_timeout :: "page \<Rightarrow> timeout_callback \<Rightarrow> widget cmd" where
  "run_timeout pg cb w =
     (case cb of
        DelayedHighlight selector elementName \<Rightarrow> highlightElement pg selector elementName w
      | ExpireHighlight element \<Rightarrow>
          (None, w\<lparr>highlighted := highlighted w - {element}, currentHighlight := None\<rparr>))"

text \<open>The handler of a message of type \<^verbatim>\<open>transcript\<close>, with its role and its text.\<close>

definition onMessage :: "string \<Rightarrow> string \<Rightarrow> widget cmd" where
  "onMessage role text w =
     (let w1 = w\<lparr>transcript_log := transcript_log w @ [(role, text)]\<rparr> in
      if role = ''assistant'' then
        (case parseForUIElements text of
           Some (elementName, selector) \<Rightarrow>
             (None, w1\<lparr>timeouts := schedule (clock w1 + 500)
                                      (DelayedHighlight selector elementName) (timeouts w1)\<rparr>)
         | None \<Rightarrow> (None, w1))
      else (None, w1))"

text \<open>
  \<^verbatim>\<open>stop()\<close> on an instance ends its call, if it has one; the instance then emits
  \<^verbatim>\<open>call-end\<close>.
\<close>

definition vapi_stop :: "nat \<Rightarrow> widget \<Rightarrow> widget" where
  "vapi_stop i w =
     (if call (instances w i) = Active
      then w\<lparr>instances := (instances w)(i := (instances w i)\<lparr>call := Stopping\<rparr>)\<rparr>
      else w)"

text \<open>
  The effect has \<^verbatim>\<open>clearHighlight\<close> among its dependencies, and \<^verbatim>\<open>clearHighlight\<close> is a new
  callback in every render whose \<^verbatim>\<open>currentHighlight\<close> differs from that of the render
  before. So after a render with a new value the effect runs again: first the cleanup of its
  last run, which calls the \<^verbatim>\<open>clearHighlight\<close> that run had and stops the instance it
  created, then the effect itself, which creates the next instance with the callbacks of the
  present render. The cleanup may set the state itself, which gives one more render; after
  two runs nothing changes any more (lemma \<open>settle_settled\<close>).
\<close>

definition effect_rerun :: "page \<Rightarrow> widget \<Rightarrow> widget" where
  "effect_rerun pg w =
     (if currentHighlight w = captured (instances w (vapi w)) then w
      else
        (let rendered = currentHighlight w;
             w1 = deliver (clearHighlight pg (captured (instances w (vapi w)))) w;
             w2 = vapi_stop (vapi w) w1
         in w2\<lparr>instances :=
                  (instances w2)(Suc (vapi w) := \<lparr>captured = rendered, call = NoCall\<rparr>),
                vapi := Suc (vapi w)\<rparr>))"

definition settle :: "page \<Rightarrow> widget \<Rightarrow> widget" where
  "settle pg w = effect_rerun pg (effect_rerun pg w)"

text \<open>
  The events of the widget: the two buttons (the start button is shown while
  \<^verbatim>\<open>isConnected\<close> is false, the end button while it is true), and the events of the
  \<open>i\<close>-th instance, which it emits only while it has a call. \<^verbatim>\<open>endCall\<close> belongs to the
  present render, so its \<^verbatim>\<open>clearHighlight\<close> has the present value of the state.
\<close>

datatype widget_event =
    StartCall
  | EndCall
  | CallStart nat
  | CallEnd nat
  | SpeechStart nat
  | SpeechEnd nat
  | Message nat string string

fun handle :: "page \<Rightarrow> widget_event \<Rightarrow> widget \<Rightarrow> widget" where
  "handle pg StartCall w =
     (if \<not> isConnected w \<and> call (instances w (vapi w)) = NoCall
      then w\<lparr>instances := (instances w)(vapi w := (instances w (vapi w))\<lparr>call := Active\<rparr>)\<rparr>
      else w)"
| "handle pg EndCall w =
     (if isConnected w
      then vapi_stop (vapi w) (deliver (clearHighlight pg (currentHighlight w)) w)
      else w)"
| "handle pg (CallStart i) w =
     (if call (instances w i) = Active then w\<lparr>isConnected := True\<rparr> else w)"
| "handle pg (CallEnd i) w =
     (if call (instances w i) \<noteq> NoCall
      then deliver (clearHighlight pg (captured (instances w i)))
             (w\<lparr>instances := (instances w)(i := (instances w i)\<lparr>call := NoCall\<rparr>),
                isConnected := False, isSpeaking := False\<rparr>)
      else w)"
| "handle pg (SpeechStart i) w =
     (if call (instances w i) = Active then w\<lparr>isSpeaking := True\<rparr> else w)"
| "handle pg (SpeechEnd i) w =
     (if call (instances w i) = Active then w\<lparr>isSpeaking := False\<rparr> else w)"
| "handle pg (Message i role text) w =
     (if call (instances w i) = Active then deliver (onMessage role text) w else w)"

text \<open>
  The widget in time. \<open>At t ev\<close> is the event \<open>ev\<close> at the time \<open>t\<close>, which cannot
  be earlier than the clock nor later than a pending timeout is due; \<open>Fire\<close> is the
  earliest pending timeout firing when it is due. After each handler the component renders and
  its effect settles.
\<close>

datatype timed_event = At nat widget_event | Fire

fun widget_step :: "page \<Rightarrow> timed_event \<Rightarrow> widget \<Rightarrow> widget" where
  "widget_step pg (At t ev) w =
     (if clock w \<le> t \<and> (case timeouts w of [] \<Rightarrow> True | (due, cb) # ts \<Rightarrow> t \<le> due)
      then settle pg (handle pg ev (w\<lparr>clock := t\<rparr>)) else w)"
| "widget_step pg Fire w =
     (case timeouts w of
        [] \<Rightarrow> w
      | (due, cb) # ts \<Rightarrow>
          settle pg (deliver (run_timeout pg cb)
                       (w\<lparr>clock := max (clock w) due, timeouts := ts\<rparr>)))"

definition widget_run :: "page \<Rightarrow> timed_event list \<Rightarrow> widget \<Rightarrow> widget" where
  "widget_run pg es w = fold (widget_step pg) es w"

text \<open>
  Two pages for the scenarios: one that has the next-task button (element 1) and the dashboard
  link (element 2), and one that has neither.
\<close>

definition example_page :: page where
  "example_page s =
     (if s = ''#next-task-btn'' then Some 1
      else if s = ''#dashboard-link'' then Some 2 else None)"

definition empty_page :: page where
  "empty_page s = None"

text \<open>
  A call in progress on the first instance; the same with the utterance of the scenario at
  one second; and the same with two utterances for two elements, 200 ms apart.
\<close>

definition call_in_progress :: "timed_event list" where
  "call_in_progress = [At 0 StartCall, At 100 (CallStart 0)]"

definition dashboard_utterance :: "timed_event list" where
  "dashboard_utterance =
     call_in_progress @ [At 1000 (Message 0 ''assistant'' ''let's open the dashboard now'')]"

definition two_utterances :: "timed_event list" where
  "two_utterances =
     call_in_progress @
     [At 1000 (Message 0 ''assistant'' ''Click next task''),
      At 1200 (Message 0 ''assistant'' ''Now open the dashboard'')]"

section \<open>Scenarios of the two hooks\<close>

text \<open>
  A session of \<^verbatim>\<open>useDeepgramVoice\<close> that reaches streaming and sends one chunk; a call of
  \<^verbatim>\<open>stopVoice\<close> while the token request of the first \<^verbatim>\<open>startVoice\<close> is pending, and what
  arrives after it; a call of \<^verbatim>\<open>startListening\<close> that gets its token and its microphone.
\<close>

definition streaming_session :: "event list" where
  "streaming_session =
     [StartVoice Returns Returns, TokenResponse 0 (TokenJson (Some ''tok'')),
      MicrophoneResponse 0 Granted, Open 0, DataAvailable 0]"

definition stop_while_fetching :: "event list" where
  "stop_while_fetching = [StartVoice Returns Returns, StopVoice Returns Returns]"

definition late_resolution :: "event list" where
  "late_resolution =
     [TokenResponse 0 (TokenJson (Some ''tok'')), MicrophoneResponse 0 Granted, Open 0,
      DataAvailable 0]"

definition listening_session :: "lt_event list" where
  "listening_session =
     [StartListening, LtTokenResponse (TokenJson (Some ''tok'')), LtMicrophoneResponse Granted]"

text \<open>
  The invariant behind the order of opening and capture: a recorder that is recording, or
  has a stop event queued, or has sent a chunk, belongs to a connection that has opened.
\<close>

definition capturing_implies_open :: "voice_hook \<Rightarrow> bool" where
  "capturing_implies_open w =
     (\<forall>k. recorder (objs w k) = Recording \<or> stopScheduled (objs w k)
            \<or> 0 < chunksSent (objs w k) \<longrightarrow> connOpen (objs w k))"

section \<open>The transcript handlers: properties\<close>

lemma onTranscript_returns: "fst (onTranscript d w) = None"
  by (simp add: onTranscript_def Let_def)

lemma onTranscript_buffer_prefix: "prefix (bufferRef w) (bufferRef (deliver (onTranscript d) w))"
  by (simp add: onTranscript_def deliver_def Let_def)

lemma onTranscript_interim_buffer:
  "\<not> is_final d \<Longrightarrow> bufferRef (deliver (onTranscript d) w) = bufferRef w"
  by (simp add: onTranscript_def deliver_def Let_def)

lemma transcripts_buffer_prefix: "prefix (bufferRef w) (bufferRef (transcripts ds w))"
proof (induction ds arbitrary: w)
  case Nil
  show ?case by (simp add: transcripts_def)
next
  case (Cons d ds)
  have "prefix (bufferRef w) (bufferRef (deliver (onTranscript d) w))"
    by (rule onTranscript_buffer_prefix)
  also have "prefix \<dots> (bufferRef (transcripts ds (deliver (onTranscript d) w)))"
    by (rule Cons.IH)
  finally show ?case by (simp add: transcripts_def)
qed

lemma lt_onTranscript_buffer_prefix:
  "prefix (lt_bufferRef h) (lt_bufferRef (deliver (lt_onTranscript d) h))"
  by (simp add: lt_onTranscript_def deliver_def Let_def split: option.splits)

lemma lt_transcripts_buffer_prefix: "prefix (lt_bufferRef h) (lt_bufferRef (lt_transcripts ds h))"
proof (induction ds arbitrary: h)
  case Nil
  show ?case by (simp add: lt_transcripts_def)
next
  case (Cons d ds)
  have "prefix (lt_bufferRef h) (lt_bufferRef (deliver (lt_onTranscript d) h))"
    by (rule lt_onTranscript_buffer_prefix)
  also have "prefix \<dots> (lt_bufferRef (lt_transcripts ds (deliver (lt_onTranscript d) h)))"
    by (rule Cons.IH)
  finally show ?case by (simp add: lt_transcripts_def)
qed

lemma js_includes_sublist: "js_includes s t \<longleftrightarrow> sublist t s"
  by (induction s) (auto simp: sublist_Cons_right)

lemma js_includes_toLowerCase:
  assumes "js_includes s t"
  shows "js_includes (toLowerCase s) (toLowerCase t)"
proof -
  from assms obtain ps ss where "s = ps @ t @ ss"
    by (auto simp: js_includes_sublist sublist_def)
  then have "toLowerCase s = toLowerCase ps @ toLowerCase t @ toLowerCase ss"
    by (simp add: toLowerCase_def)
  then show ?thesis
    unfolding js_includes_sublist sublist_def by blast
qed

lemma trim_Nil_iff: "trim s = [] \<longleftrightarrow> (\<forall>c\<in>set s. isWhiteSpace c)"
proof
  assume "trim s = []"
  then have all: "\<forall>c\<in>set (dropWhile isWhiteSpace s). isWhiteSpace c"
    by (simp add: trim_def)
  have "dropWhile isWhiteSpace s = []"
  proof (rule ccontr)
    assume ne: "dropWhile isWhiteSpace s \<noteq> []"
    then have "\<not> isWhiteSpace (hd (dropWhile isWhiteSpace s))"
      by (rule hd_dropWhile)
    moreover have "hd (dropWhile isWhiteSpace s) \<in> set (dropWhile isWhiteSpace s)"
      using ne by simp
    ultimately show False using all by blast
  qed
  then show "\<forall>c\<in>set s. isWhiteSpace c"
    by simp
next
  assume "\<forall>c\<in>set s. isWhiteSpace c"
  then show "trim s = []"
    by (auto simp: trim_def dest: set_dropWhileD)
qed

lemma transcripts_append: "transcripts (ds @ es) w = transcripts es (transcripts ds w)"
  by (simp add: transcripts_def)

lemma lt_transcripts_append: "lt_transcripts (ds @ es) h = lt_transcripts es (lt_transcripts ds h)"
  by (simp add: lt_transcripts_def)

lemma transcript_txt_PartialText: "transcript_txt (PartialText t) = Some (trim t)"
  by (simp add: transcript_txt_def PartialText_def first_alternative_def)

lemma is_final_PartialText: "\<not> is_final (PartialText t)"
  by (simp add: PartialText_def)

lemma transcript_txt_FinalText: "transcript_txt (FinalText t) = Some (trim t)"
  by (simp add: transcript_txt_def FinalText_def first_alternative_def)

lemma toLowerCase_create_course: "toLowerCase ''create course'' = ''create course''"
  by code_simp

section \<open>The committed transcript (C1)\<close>

lemma lt_run_append: "lt_run (ls @ ms) h = lt_run ms (lt_run ls h)"
  by (simp add: lt_run_def)

lemma stopListening_buffer: "lt_bufferRef (snd (stopListening o1 o2 h)) = lt_bufferRef h"
  by (cases o1; cases o2)
    (simp_all add: stopListening_def seq_def modify_def ret_def lt_recorder_stop_def
      lt_connection_finish_def Let_def split: option.splits)

lemma lt_step_buffer_prefix: "prefix (lt_bufferRef h) (lt_bufferRef (lt_step ev h))"
proof (cases ev)
  case (StopListening o1 o2)
  then show ?thesis by (simp add: deliver_def stopListening_buffer)
next
  case (LtTokenResponse r)
  then show ?thesis
    by (cases r) (simp_all add: deliver_def startListening_token_def Let_def)
next
  case (LtMicrophoneResponse r)
  then show ?thesis
    by (cases r) (simp_all add: deliver_def startListening_microphone_def)
next
  case (LtTranscript d)
  then show ?thesis by (simp add: lt_onTranscript_buffer_prefix)
next
  case (LtDataAvailable sz)
  then show ?thesis
    by (simp add: deliver_def lt_ondataavailable_def split: option.splits)
qed (simp_all split: option.splits)

lemma lt_run_buffer_prefix: "prefix (lt_bufferRef h) (lt_bufferRef (lt_run ls h))"
proof (induction ls arbitrary: h)
  case Nil
  show ?case by (simp add: lt_run_def)
next
  case (Cons ev ls)
  have "prefix (lt_bufferRef h) (lt_bufferRef (lt_step ev h))"
    by (rule lt_step_buffer_prefix)
  also have "prefix \<dots> (lt_bufferRef (lt_run ls (lt_step ev h)))"
    by (rule Cons.IH)
  finally show ?case by (simp add: lt_run_def)
qed

text \<open>
  Claim C1. Along every sequence of Transcript events of a session the committed buffer of
  \<^verbatim>\<open>useDeepgramVoice\<close> only grows: the buffer at any point is a prefix of the buffer at
  every later point, so its length never decreases; an event that is not final leaves the
  buffer as it is, and a final event with text appends that text, behind one space when the
  buffer has text. The buffer of \<^verbatim>\<open>useLiveTranscription\<close> only grows along every
  sequence of events of that hook; a payload that is not final is not delivered to it and
  changes nothing, and a final payload with text appends that text in the same way.
\<close>

theorem committed_transcript_monotone:
  "prefix (bufferRef (transcripts ds w)) (bufferRef (transcripts (ds @ es) w))
   \<and> length (bufferRef (transcripts ds w)) \<le> length (bufferRef (transcripts (ds @ es) w))
   \<and> (\<not> is_final d \<longrightarrow> bufferRef (deliver (onTranscript d) w) = bufferRef w)
   \<and> (is_final d \<and> first_alternative d = Some a \<and> trim (transcript a) \<noteq> [] \<longrightarrow>
        bufferRef (deliver (onTranscript d) w)
          = bufferRef w @ (if bufferRef w \<noteq> [] then '' '' else []) @ trim (transcript a))
   \<and> prefix (lt_bufferRef (lt_run ls h)) (lt_bufferRef (lt_run (ls @ ms) h))
   \<and> length (lt_bufferRef (lt_run ls h)) \<le> length (lt_bufferRef (lt_run (ls @ ms) h))
   \<and> (\<not> is_final d \<longrightarrow> lt_step (LtTranscript d) h = h)
   \<and> (is_final d \<and> first_alternative d = Some a \<and> transcript a \<noteq> [] \<and> deepgramRef h \<noteq> None \<longrightarrow>
        lt_bufferRef (lt_step (LtTranscript d) h)
          = lt_bufferRef h @ (if lt_bufferRef h \<noteq> [] then '' '' else []) @ transcript a)"
proof -
  have a: "prefix (bufferRef (transcripts ds w)) (bufferRef (transcripts (ds @ es) w))"
    unfolding transcripts_append by (rule transcripts_buffer_prefix)
  have b: "prefix (lt_bufferRef (lt_run ls h)) (lt_bufferRef (lt_run (ls @ ms) h))"
    unfolding lt_run_append by (rule lt_run_buffer_prefix)
  have c: "is_final d \<and> first_alternative d = Some a \<and> trim (transcript a) \<noteq> [] \<longrightarrow>
        bufferRef (deliver (onTranscript d) w)
          = bufferRef w @ (if bufferRef w \<noteq> [] then '' '' else []) @ trim (transcript a)"
    by (simp add: onTranscript_def deliver_def transcript_txt_def truthy_def Let_def)
  have e: "\<not> is_final d \<longrightarrow> lt_step (LtTranscript d) h = h"
    by simp
  have f: "is_final d \<and> first_alternative d = Some a \<and> transcript a \<noteq> [] \<and> deepgramRef h \<noteq> None \<longrightarrow>
        lt_bufferRef (lt_step (LtTranscript d) h)
          = lt_bufferRef h @ (if lt_bufferRef h \<noteq> [] then '' '' else []) @ transcript a"
    by (simp add: lt_onTranscript_def deliver_def Let_def)
  have g: "\<not> is_final d \<longrightarrow> bufferRef (deliver (onTranscript d) w) = bufferRef w"
    by (simp add: onTranscript_interim_buffer)
  from a b c e f g prefix_length_le [OF a] prefix_length_le [OF b] show ?thesis
    by (intro conjI)
qed

text \<open>
  Claim C1 at an interim event and at final events, in both hooks: the hook
  \<^verbatim>\<open>useLiveTranscription\<close> is taken with its connection created.
\<close>

theorem committed_transcript_monotone_witness:
  "\<not> is_final (PartialText ''creat'')
   \<and> bufferRef (deliver (onTranscript (PartialText ''creat'')) initial_hook) = bufferRef initial_hook
   \<and> lt_step (LtTranscript (PartialText ''creat'')) (lt_run listening_session initial_listen)
       = lt_run listening_session initial_listen
   \<and> is_final (FinalText ''create'')
   \<and> first_alternative (FinalText ''create'') = Some \<lparr>transcript = ''create''\<rparr>
   \<and> trim (transcript \<lparr>transcript = ''create''\<rparr>) \<noteq> []
   \<and> deepgramRef (lt_run listening_session initial_listen) \<noteq> None
   \<and> lt_bufferRef (lt_step (LtTranscript (FinalText ''create''))
        (lt_run listening_session initial_listen))
       = lt_bufferRef (lt_run listening_session initial_listen)
           @ (if lt_bufferRef (lt_run listening_session initial_listen) \<noteq> [] then '' '' else [])
           @ transcript \<lparr>transcript = ''create''\<rparr>
   \<and> prefix (lt_bufferRef (lt_run (listening_session @ [LtTranscript (FinalText ''create'')])
                initial_listen))
        (lt_bufferRef (lt_run ((listening_session @ [LtTranscript (FinalText ''create'')])
                @ [LtTranscript (FinalText ''course'')]) initial_listen))
   \<and> prefix (bufferRef (transcripts [FinalText ''create''] initial_hook))
        (bufferRef (transcripts ([FinalText ''create''] @ [FinalText ''course'']) initial_hook))"
proof -
  have h1: "\<not> is_final (PartialText ''creat'')"
    by (simp add: PartialText_def)
  have h2: "is_final (FinalText ''create'')"
    by (simp add: FinalText_def)
  have h3: "first_alternative (FinalText ''create'') = Some \<lparr>transcript = ''create''\<rparr>"
    by (simp add: FinalText_def first_alternative_def)
  have h4: "trim (transcript \<lparr>transcript = ''create''\<rparr>) \<noteq> []"
    by code_simp
  have h5: "transcript \<lparr>transcript = ''create''\<rparr> \<noteq> []"
    by simp
  have h6: "deepgramRef (lt_run listening_session initial_listen) \<noteq> None"
    by code_simp
  show ?thesis
    using h1 h2 h3 h4 h5 h6
      committed_transcript_monotone
        [where ds = "[FinalText ''create'']" and w = initial_hook
           and es = "[FinalText ''course'']" and d = "PartialText ''creat''"
           and h = "lt_run listening_session initial_listen"]
      committed_transcript_monotone
        [where d = "FinalText ''create''" and a = "\<lparr>transcript = ''create''\<rparr>"
           and h = "lt_run listening_session initial_listen"]
      committed_transcript_monotone
        [where ls = "listening_session @ [LtTranscript (FinalText ''create'')]"
           and ms = "[LtTranscript (FinalText ''course'')]" and h = initial_listen]
    by blast
qed

section \<open>The preview (C5, C6)\<close>

text \<open>
  Claim C5, as amended. On an interim event whose trimmed text \<open>t\<close> is not empty, with a
  committed buffer that is not empty, the live transcript becomes the buffer, one space and
  \<open>t\<close>, and the buffer is unchanged. From the empty session, the two interim events of the
  scenario leave the buffer empty, and after the final event the buffer is exactly
  \<^verbatim>\<open>create course\<close> and the live transcript shows the buffer.
\<close>

theorem interim_preview:
  "(trim t \<noteq> [] \<and> bufferRef w \<noteq> [] \<longrightarrow>
      liveTranscript (deliver (onTranscript (PartialText t)) w) = bufferRef w @ '' '' @ trim t
      \<and> bufferRef (deliver (onTranscript (PartialText t)) w) = bufferRef w)
   \<and> bufferRef (transcripts [PartialText ''creat'', PartialText ''create cour''] initial_hook) = []
   \<and> bufferRef (transcripts [PartialText ''creat'', PartialText ''create cour'',
        FinalText ''create course''] initial_hook) = ''create course''
   \<and> liveTranscript (transcripts [PartialText ''creat'', PartialText ''create cour'',
        FinalText ''create course''] initial_hook) = ''create course''"
proof -
  have a: "trim t \<noteq> [] \<and> bufferRef w \<noteq> [] \<longrightarrow>
      liveTranscript (deliver (onTranscript (PartialText t)) w) = bufferRef w @ '' '' @ trim t
      \<and> bufferRef (deliver (onTranscript (PartialText t)) w) = bufferRef w"
    by (simp add: onTranscript_def deliver_def transcript_txt_PartialText truthy_def Let_def
        is_final_PartialText)
  have b: "bufferRef (transcripts [PartialText ''creat'', PartialText ''create cour''] initial_hook) = []"
    by code_simp
  have c: "bufferRef (transcripts [PartialText ''creat'', PartialText ''create cour'',
        FinalText ''create course''] initial_hook) = ''create course''"
    by code_simp
  have d: "liveTranscript (transcripts [PartialText ''creat'', PartialText ''create cour'',
        FinalText ''create course''] initial_hook) = ''create course''"
    by code_simp
  from a b c d show ?thesis by blast
qed

text \<open>The amended claim C5 at an interim event that follows a committed word.\<close>

theorem interim_preview_witness:
  "trim ''create cour'' \<noteq> []
   \<and> bufferRef (transcripts [FinalText ''please''] initial_hook) \<noteq> []
   \<and> liveTranscript (deliver (onTranscript (PartialText ''create cour''))
        (transcripts [FinalText ''please''] initial_hook))
      = bufferRef (transcripts [FinalText ''please''] initial_hook) @ '' '' @ trim ''create cour''"
proof -
  have h1: "trim ''create cour'' \<noteq> []" by code_simp
  have h2: "bufferRef (transcripts [FinalText ''please''] initial_hook) \<noteq> []" by code_simp
  show ?thesis
    using h1 h2 interim_preview [of "''create cour''" "transcripts [FinalText ''please''] initial_hook"]
    by blast
qed

text \<open>
  Claim C5 as stated fails on its own scenario: after the second interim event the live
  transcript is \<^verbatim>\<open>create cour\<close> behind a leading space, and after the final event it is
  the committed text, not empty.
\<close>

theorem preview_C5_counterexample:
  "liveTranscript (transcripts [PartialText ''creat'', PartialText ''create cour''] initial_hook)
     = '' create cour''
   \<and> liveTranscript (transcripts [PartialText ''creat'', PartialText ''create cour''] initial_hook)
     \<noteq> ''create cour''
   \<and> liveTranscript (transcripts [PartialText ''creat'', PartialText ''create cour'',
        FinalText ''create course''] initial_hook) = ''create course''
   \<and> liveTranscript (transcripts [PartialText ''creat'', PartialText ''create cour'',
        FinalText ''create course''] initial_hook) \<noteq> []"
  by code_simp

text \<open>
  Claim C6, as amended. A final event whose text is empty after trimming changes nothing:
  nothing is appended to the buffer, and the live transcript keeps what it showed.
\<close>

theorem empty_final_ignored:
  "trim t = [] \<longrightarrow> deliver (onTranscript (FinalText t)) w = w"
  by (simp add: onTranscript_def deliver_def transcript_txt_FinalText truthy_def)

text \<open>The amended claim C6 at a final event of two spaces after an interim event.\<close>

theorem empty_final_ignored_witness:
  "trim ''  '' = []
   \<and> deliver (onTranscript (FinalText ''  '')) (transcripts [PartialText ''hello''] initial_hook)
       = transcripts [PartialText ''hello''] initial_hook"
proof -
  have h: "trim ''  '' = []" by code_simp
  show ?thesis
    using h empty_final_ignored [of "''  ''" "transcripts [PartialText ''hello''] initial_hook"]
    by blast
qed

text \<open>
  Claim C6 as stated fails: after an interim \<^verbatim>\<open>hello\<close>, a final event with empty text
  leaves the live transcript showing the interim text.
\<close>

theorem empty_final_C6_counterexample:
  "trim '''' = []
   \<and> bufferRef (transcripts [PartialText ''hello'', FinalText ''''] initial_hook) = []
   \<and> liveTranscript (transcripts [PartialText ''hello'', FinalText ''''] initial_hook) = '' hello''
   \<and> liveTranscript (transcripts [PartialText ''hello'', FinalText ''''] initial_hook) \<noteq> []"
  by code_simp

section \<open>The command router (C7)\<close>

text \<open>
  What \<^verbatim>\<open>handleTranscriptUpdate\<close> does with a transcript it is given: exactly one action,
  decided by the first of \<^verbatim>\<open>create course\<close>, \<^verbatim>\<open>join course\<close> and \<^verbatim>\<open>submit task\<close> that
  the lowercased transcript contains, and the fallback with none.
\<close>

lemma handleTranscriptUpdate_first_match:
  "length (handleTranscriptUpdate t) = 1
   \<and> (js_includes (toLowerCase t) ''create course''
        \<longrightarrow> handleTranscriptUpdate t = [handleCreateCourseButtonClick])
   \<and> (\<not> js_includes (toLowerCase t) ''create course''
        \<and> js_includes (toLowerCase t) ''join course''
        \<longrightarrow> handleTranscriptUpdate t = [handleJoinCourseAction])
   \<and> (\<not> js_includes (toLowerCase t) ''create course''
        \<and> \<not> js_includes (toLowerCase t) ''join course''
        \<and> js_includes (toLowerCase t) ''submit task''
        \<longrightarrow> handleTranscriptUpdate t = [handleSubmitTaskAction])
   \<and> (\<not> js_includes (toLowerCase t) ''create course''
        \<and> \<not> js_includes (toLowerCase t) ''join course''
        \<and> \<not> js_includes (toLowerCase t) ''submit task''
        \<longrightarrow> handleTranscriptUpdate t = [handleFallbackAction])
   \<and> (js_includes t ''create course''
        \<longrightarrow> handleTranscriptUpdate t = [handleCreateCourseButtonClick])"
proof -
  have "js_includes (toLowerCase t) ''create course''" if "js_includes t ''create course''"
    using js_includes_toLowerCase [OF that] by (simp only: toLowerCase_create_course)
  then show ?thesis
    by (auto simp: handleTranscriptUpdate_def Let_def)
qed

lemma voice_input_run_actions:
  "router_push_calls (voice_input_run es c) = router_push_calls c
   \<and> console_log_calls (voice_input_run es c) = console_log_calls c"
  by (induction es arbitrary: c) (simp_all add: voice_input_run_def voice_input_step_def)

text \<open>
  Claim C7 at its failing input. No event of the component performs a router action. In a
  streaming session the final result \<^verbatim>\<open>please create course now\<close> is committed and given to
  the \<^verbatim>\<open>onTranscriptUpdate\<close> prop; \<^verbatim>\<open>router.push\<close> and \<^verbatim>\<open>console.log\<close> are not called,
  although \<^verbatim>\<open>handleTranscriptUpdate\<close> would select the create-course action for that
  transcript, which pushes \<^verbatim>\<open>/school/admin/create\<close>.
\<close>

theorem committed_update_invokes_no_action:
  "router_push_calls (voice_input_run es c) = router_push_calls c
   \<and> console_log_calls (voice_input_run es c) = console_log_calls c
   \<and> onTranscriptUpdate_calls (vi_hook (voice_input_run
       (streaming_session @ [Transcript 0 (FinalText ''please create course now'')])
       initial_voice_input)) = [''please create course now'']
   \<and> router_push_calls (voice_input_run
       (streaming_session @ [Transcript 0 (FinalText ''please create course now'')])
       initial_voice_input) = []
   \<and> console_log_calls (voice_input_run
       (streaming_session @ [Transcript 0 (FinalText ''please create course now'')])
       initial_voice_input) = []
   \<and> handleTranscriptUpdate ''please create course now'' = [handleCreateCourseButtonClick]
   \<and> router_push_calls (perform handleCreateCourseButtonClick initial_voice_input)
       = [''/school/admin/create'']"
proof -
  have closed: "onTranscriptUpdate_calls (vi_hook (voice_input_run
       (streaming_session @ [Transcript 0 (FinalText ''please create course now'')])
       initial_voice_input)) = [''please create course now'']
   \<and> router_push_calls (voice_input_run
       (streaming_session @ [Transcript 0 (FinalText ''please create course now'')])
       initial_voice_input) = []
   \<and> console_log_calls (voice_input_run
       (streaming_session @ [Transcript 0 (FinalText ''please create course now'')])
       initial_voice_input) = []
   \<and> handleTranscriptUpdate ''please create course now'' = [handleCreateCourseButtonClick]
   \<and> router_push_calls (perform handleCreateCourseButtonClick initial_voice_input)
       = [''/school/admin/create'']"
    by code_simp
  from voice_input_run_actions [of es c] closed show ?thesis
    by (intro conjI) simp_all
qed

section \<open>Payloads without text (C10)\<close>

text \<open>
  Claim C10. The Transcript handler of \<^verbatim>\<open>useDeepgramVoice\<close> returns without throwing on
  every payload, the one with an empty array of alternatives included; and when there is no
  alternative, or the text of the first one is white space only, the buffer and the live
  transcript are unchanged.
\<close>

theorem transcript_handler_total:
  "fst (onTranscript d w) = None
   \<and> (alternatives (channel d) = [] \<longrightarrow>
        bufferRef (snd (onTranscript d w)) = bufferRef w
        \<and> liveTranscript (snd (onTranscript d w)) = liveTranscript w)
   \<and> (alternatives (channel d) = a # rest \<and> (\<forall>c\<in>set (transcript a). isWhiteSpace c) \<longrightarrow>
        bufferRef (snd (onTranscript d w)) = bufferRef w
        \<and> liveTranscript (snd (onTranscript d w)) = liveTranscript w)"
proof -
  have none: "\<not> truthy (transcript_txt d)" if "alternatives (channel d) = []"
    using that by (simp add: truthy_def transcript_txt_def first_alternative_def)
  have blank: "\<not> truthy (transcript_txt d)"
    if "alternatives (channel d) = a # rest" and "\<forall>c\<in>set (transcript a). isWhiteSpace c"
    using that by (simp add: truthy_def transcript_txt_def first_alternative_def trim_Nil_iff)
  have unchanged: "snd (onTranscript d w) = w" if "\<not> truthy (transcript_txt d)"
    using that by (simp add: onTranscript_def Let_def)
  show ?thesis
    using none blank unchanged by (auto simp: onTranscript_returns)
qed

text \<open>
  Claim C10 at a payload with no alternative and at a final payload of two spaces, after a
  committed word.
\<close>

theorem transcript_handler_total_witness:
  "alternatives (channel \<lparr>channel = \<lparr>alternatives = []\<rparr>, is_final = True\<rparr>) = []
   \<and> fst (onTranscript \<lparr>channel = \<lparr>alternatives = []\<rparr>, is_final = True\<rparr>
        (transcripts [FinalText ''hello''] initial_hook)) = None
   \<and> bufferRef (snd (onTranscript \<lparr>channel = \<lparr>alternatives = []\<rparr>, is_final = True\<rparr>
        (transcripts [FinalText ''hello''] initial_hook)))
      = bufferRef (transcripts [FinalText ''hello''] initial_hook)
   \<and> alternatives (channel (FinalText ''  '')) = [\<lparr>transcript = ''  ''\<rparr>]
   \<and> list_all isWhiteSpace (transcript \<lparr>transcript = ''  ''\<rparr>)
   \<and> bufferRef (snd (onTranscript (FinalText ''  '')
        (transcripts [FinalText ''hello''] initial_hook)))
      = bufferRef (transcripts [FinalText ''hello''] initial_hook)"
proof -
  have h1: "alternatives (channel \<lparr>channel = \<lparr>alternatives = []\<rparr>, is_final = True\<rparr>) = []"
    by simp
  have h2: "alternatives (channel (FinalText ''  '')) = [\<lparr>transcript = ''  ''\<rparr>]"
    by (simp add: FinalText_def)
  have h3: "list_all isWhiteSpace (transcript \<lparr>transcript = ''  ''\<rparr>)"
    by (simp add: isWhiteSpace_def)
  show ?thesis
    using h1 h2 h3 h3 [unfolded list_all_iff]
      transcript_handler_total [of "\<lparr>channel = \<lparr>alternatives = []\<rparr>, is_final = True\<rparr>"
        "transcripts [FinalText ''hello''] initial_hook"]
      transcript_handler_total [of "FinalText ''  ''"
        "transcripts [FinalText ''hello''] initial_hook" "\<lparr>transcript = ''  ''\<rparr>" "[]"]
    by blast
qed

section \<open>The highlight correlator (C8, C9)\<close>




lemma parse_dashboard:
  "parseForUIElements ''let's open the dashboard now'' = Some (''dashboard'', ''#dashboard-link'')"
  by code_simp

lemma parse_next_task:
  "parseForUIElements ''Click next task'' = Some (''next task'', ''#next-task-btn'')"
  by code_simp

lemma parse_open_dashboard:
  "parseForUIElements ''Now open the dashboard'' = Some (''dashboard'', ''#dashboard-link'')"
  by code_simp

lemmas widget_eval =
  widget_run_def dashboard_utterance_def two_utterances_def call_in_progress_def
  initial_widget_def settle_def effect_rerun_def run_timeout_def highlightElement_def
  try_catch_def deliver_def clearHighlight_def truthy_def vapi_stop_def Let_def
  onMessage_def parse_dashboard parse_next_task parse_open_dashboard example_page_def
  empty_page_def

text \<open>After the effect has settled, its callbacks hold the present state.\<close>

lemma clearHighlight_fields:
  "currentHighlight (deliver (clearHighlight pg c) w)
     = (if truthy c then None else currentHighlight w)"
  "instances (deliver (clearHighlight pg c) w) = instances w"
  "vapi (deliver (clearHighlight pg c) w) = vapi w"
  "clock (deliver (clearHighlight pg c) w) = clock w"
  "timeouts (deliver (clearHighlight pg c) w) = timeouts w"
  "highlighted (deliver (clearHighlight pg c) w) \<subseteq> highlighted w"
  by (auto simp: clearHighlight_def deliver_def Let_def split: option.splits)

lemma vapi_stop_fields:
  "currentHighlight (vapi_stop i w) = currentHighlight w"
  "captured (instances (vapi_stop i w) k) = captured (instances w k)"
  "vapi (vapi_stop i w) = vapi w"
  "clock (vapi_stop i w) = clock w"
  "timeouts (vapi_stop i w) = timeouts w"
  "highlighted (vapi_stop i w) = highlighted w"
  by (simp_all add: vapi_stop_def)

lemma effect_rerun_unsettled:
  assumes "currentHighlight w \<noteq> captured (instances w (vapi w))"
  shows "vapi (effect_rerun pg w) = Suc (vapi w)"
    and "captured (instances (effect_rerun pg w) (Suc (vapi w))) = currentHighlight w"
    and "currentHighlight (effect_rerun pg w)
           = (if truthy (captured (instances w (vapi w))) then None else currentHighlight w)"
  using assms
  by (simp_all add: effect_rerun_def Let_def clearHighlight_fields vapi_stop_fields)

lemma effect_rerun_settled:
  assumes "currentHighlight w = captured (instances w (vapi w))"
  shows "effect_rerun pg w = w"
  using assms by (simp add: effect_rerun_def)

lemma settle_settled:
  "currentHighlight (settle pg w) = captured (instances (settle pg w) (vapi (settle pg w)))"
proof (cases "currentHighlight w = captured (instances w (vapi w))")
  case True
  then show ?thesis by (simp add: settle_def effect_rerun_settled)
next
  case False
  let ?w = "effect_rerun pg w"
  note first = effect_rerun_unsettled [OF False, of pg]
  show ?thesis
  proof (cases "currentHighlight ?w = captured (instances ?w (vapi ?w))")
    case True
    then show ?thesis by (simp add: settle_def effect_rerun_settled)
  next
    case unsettled: False
    then have none: "currentHighlight ?w = None"
      using first by (auto split: if_splits)
    have "currentHighlight (effect_rerun pg ?w) = None"
      using effect_rerun_unsettled(3) [OF unsettled, of pg] none by simp
    moreover have "captured (instances (effect_rerun pg ?w) (vapi (effect_rerun pg ?w))) = None"
      using effect_rerun_unsettled(1,2) [OF unsettled, of pg] none by simp
    ultimately show ?thesis by (simp add: settle_def)
  qed
qed

lemma widget_step_settled:
  assumes "currentHighlight w = captured (instances w (vapi w))"
  shows "currentHighlight (widget_step pg ev w)
           = captured (instances (widget_step pg ev w) (vapi (widget_step pg ev w)))"
proof (cases ev)
  case (At t e)
  with assms show ?thesis by (simp add: settle_settled)
next
  case Fire
  with assms show ?thesis by (simp add: settle_settled split: list.splits)
qed

lemma widget_run_settled:
  "currentHighlight (widget_run pg es initial_widget)
     = captured (instances (widget_run pg es initial_widget)
                  (vapi (widget_run pg es initial_widget)))"
proof -
  have "currentHighlight (widget_run pg es w)
          = captured (instances (widget_run pg es w) (vapi (widget_run pg es w)))"
    if "currentHighlight w = captured (instances w (vapi w))" for w
    using that
  proof (induction es arbitrary: w)
    case Nil
    then show ?case by (simp add: widget_run_def)
  next
    case (Cons ev es)
    have "currentHighlight (widget_run pg es (widget_step pg ev w))
        = captured (instances (widget_run pg es (widget_step pg ev w))
            (vapi (widget_run pg es (widget_step pg ev w))))"
      by (rule Cons.IH) (rule widget_step_settled [OF Cons.prems])
    then show ?case by (simp add: widget_run_def)
  qed
  moreover have "currentHighlight initial_widget
      = captured (instances initial_widget (vapi initial_widget))"
    by (simp add: initial_widget_def)
  ultimately show ?thesis by blast
qed

text \<open>
  Whatever the events, at most one element carries the highlight class: a highlight that
  finds its element removes the class everywhere first, and nothing else adds it.
\<close>

lemma effect_rerun_highlighted: "highlighted (effect_rerun pg w) \<subseteq> highlighted w"
  using clearHighlight_fields(6) [of pg "captured (instances w (vapi w))" w]
  by (simp add: effect_rerun_def Let_def vapi_stop_fields)

lemma settle_highlighted: "highlighted (settle pg w) \<subseteq> highlighted w"
  using effect_rerun_highlighted [of pg "effect_rerun pg w"] effect_rerun_highlighted [of pg w]
  by (auto simp: settle_def)

lemma run_timeout_at_most_one:
  assumes "\<exists>e. highlighted w \<subseteq> {e}"
  shows "\<exists>e. highlighted (deliver (run_timeout pg cb) w) \<subseteq> {e}"
  using assms
  by (cases cb)
    (auto simp: run_timeout_def highlightElement_def try_catch_def deliver_def
      split: option.splits)

lemma handle_highlighted: "highlighted (handle pg ev w) \<subseteq> highlighted w"
proof (cases ev)
  case EndCall
  then show ?thesis
    using clearHighlight_fields(6) [of pg "currentHighlight w" w]
    by (simp add: vapi_stop_fields)
next
  case (CallEnd i)
  then show ?thesis
    by (auto dest: subsetD [OF clearHighlight_fields(6)])
next
  case (Message i role utterance)
  then show ?thesis
    by (simp add: onMessage_def deliver_def Let_def split: option.splits)
qed simp_all

lemma widget_step_at_most_one:
  assumes "\<exists>e. highlighted w \<subseteq> {e}"
  shows "\<exists>e. highlighted (widget_step pg ev w) \<subseteq> {e}"
proof (cases ev)
  case (At t e)
  have "highlighted (settle pg (handle pg e (w\<lparr>clock := t\<rparr>))) \<subseteq> highlighted w"
    using settle_highlighted [of pg "handle pg e (w\<lparr>clock := t\<rparr>)"]
      handle_highlighted [of pg e "w\<lparr>clock := t\<rparr>"]
    by auto
  with At assms show ?thesis by auto
next
  case Fire
  show ?thesis
  proof (cases "timeouts w")
    case Nil
    with Fire assms show ?thesis by simp
  next
    case (Cons p ts)
    obtain due cb where p: "p = (due, cb)" by (cases p)
    let ?w = "w\<lparr>clock := max (clock w) due, timeouts := ts\<rparr>"
    have "\<exists>e. highlighted ?w \<subseteq> {e}"
      using assms by simp
    then obtain e where "highlighted (deliver (run_timeout pg cb) ?w) \<subseteq> {e}"
      using run_timeout_at_most_one by blast
    then have "highlighted (settle pg (deliver (run_timeout pg cb) ?w)) \<subseteq> {e}"
      using settle_highlighted [of pg "deliver (run_timeout pg cb) ?w"] by blast
    with Fire Cons p show ?thesis by auto
  qed
qed

lemma at_most_one_highlight:
  "\<exists>e. highlighted (widget_run pg es initial_widget) \<subseteq> {e}"
proof -
  have "\<exists>e. highlighted (widget_run pg es w) \<subseteq> {e}" if "\<exists>e. highlighted w \<subseteq> {e}" for w
    using that
  proof (induction es arbitrary: w)
    case Nil
    then show ?case by (simp add: widget_run_def)
  next
    case (Cons ev es)
    have "\<exists>e. highlighted (widget_run pg es (widget_step pg ev w)) \<subseteq> {e}"
      by (rule Cons.IH) (rule widget_step_at_most_one [OF Cons.prems])
    then show ?case by (simp add: widget_run_def)
  qed
  moreover have "\<exists>e. highlighted initial_widget \<subseteq> {e}"
    by (simp add: initial_widget_def)
  ultimately show ?thesis by blast
qed

text \<open>
  Claim C8 at its failing input. During a call the assistant says
  \<^verbatim>\<open>let's open the dashboard now\<close>, and half a second later the dashboard link is
  highlighted. Setting \<^verbatim>\<open>currentHighlight\<close> runs the effect again, whose cleanup stops the
  instance that carries the call. When that instance emits \<^verbatim>\<open>call-end\<close>, its handler
  calls the \<^verbatim>\<open>clearHighlight\<close> of the first render, for which \<^verbatim>\<open>currentHighlight\<close> is
  \<^verbatim>\<open>null\<close>: the call has ended and the dashboard link is still highlighted. With two
  utterances for two elements 200 ms apart, the second highlight is applied and removed at
  once by the cleanups of the effect, so that nothing is highlighted.
\<close>

theorem highlight_outlives_call:
  "highlighted (widget_run example_page (dashboard_utterance @ [Fire]) initial_widget) = {2}
   \<and> call (instances (widget_run example_page (dashboard_utterance @ [Fire]) initial_widget) 0)
       = Stopping
   \<and> highlighted (widget_run example_page
        (dashboard_utterance @ [Fire, At 1600 (CallEnd 0)]) initial_widget) = {2}
   \<and> \<not> isConnected (widget_run example_page
        (dashboard_utterance @ [Fire, At 1600 (CallEnd 0)]) initial_widget)
   \<and> call (instances (widget_run example_page
        (dashboard_utterance @ [Fire, At 1600 (CallEnd 0)]) initial_widget) 0) = NoCall
   \<and> clock (widget_run example_page
        (dashboard_utterance @ [Fire, At 1600 (CallEnd 0)]) initial_widget) = 1600
   \<and> highlighted (widget_run example_page (two_utterances @ [Fire]) initial_widget) = {1}
   \<and> highlighted (widget_run example_page (two_utterances @ [Fire, Fire]) initial_widget) = {}
   \<and> clock (widget_run example_page (two_utterances @ [Fire, Fire]) initial_widget) = 1700"
  by (simp add: widget_eval)










section \<open>Teardown and late resolutions (C2, C3)\<close>

lemma seq_try_catch: "seq (try_catch f) g w = g (snd (f w))"
  by (simp add: seq_def try_catch_def)

lemma seq_modify: "seq (modify u) g w = g (u w)"
  by (simp add: seq_def modify_def)

lemma snd_MediaRecorder_stop:
  "snd (MediaRecorder_stop oc k w) =
     update_obj k (\<lambda>r. if oc = Returns \<and> recorder r = Recording
                        then r\<lparr>recorder := Inactive, stopScheduled := True,
                               stopCalls := Suc (stopCalls r)\<rparr>
                        else r\<lparr>stopCalls := Suc (stopCalls r)\<rparr>) w"
  by (cases oc) (auto simp: MediaRecorder_stop_def update_obj_def Let_def fun_eq_iff
      intro!: arg_cong [where f = "\<lambda>f. w\<lparr>objs := f\<rparr>"])

lemma snd_connection_finish:
  "snd (connection_finish oc k w) = update_obj k (\<lambda>r. r\<lparr>finishCalls := Suc (finishCalls r)\<rparr>) w"
  by (cases oc) (simp_all add: connection_finish_def Let_def)

lemma cleanupVoice_eq:
  "cleanupVoice o1 o2 w =
     (None,
      (let w1 = (case recorderRef w of None \<Rightarrow> w | Some k \<Rightarrow> snd (MediaRecorder_stop o1 k w));
           w2 = (case dgConnRef w1 of None \<Rightarrow> w1 | Some k \<Rightarrow> snd (connection_finish o2 k w1))
       in w2\<lparr>recorderRef := None, dgConnRef := None, isVoiceActive := False,
             liveTranscript := [], bufferRef := []\<rparr>))"
  by (simp add: cleanupVoice_def seq_try_catch modify_def ret_def Let_def split: option.splits)

lemma objs_update_obj: "objs (update_obj k u w) = (objs w)(k := u (objs w k))"
  by (simp add: update_obj_def)

lemma refs_update_obj:
  "recorderRef (update_obj k u w) = recorderRef w"
  "dgConnRef (update_obj k u w) = dgConnRef w"
  "isVoiceActive (update_obj k u w) = isVoiceActive w"
  "bufferRef (update_obj k u w) = bufferRef w"
  "liveTranscript (update_obj k u w) = liveTranscript w"
  by (simp_all add: update_obj_def)

lemma snd_startVoice:
  "snd (startVoice o1 o2 w) =
     (update_obj (nextCall (snd (cleanupVoice o1 o2 w))) (\<lambda>r. r\<lparr>phase := AwaitingToken\<rparr>)
        ((snd (cleanupVoice o1 o2 w))\<lparr>isVoiceActive := True, liveTranscript := [],
           bufferRef := []\<rparr>))
       \<lparr>nextCall := Suc (nextCall (snd (cleanupVoice o1 o2 w)))\<rparr>"
  by (simp add: startVoice_def seq_def modify_def cleanupVoice_eq)

text \<open>
  Claim C2, as amended. \<^verbatim>\<open>cleanupVoice\<close> throws nothing from any state, whatever its two
  calls do, and leaves the hook inactive with both refs empty and the buffer and the live
  transcript empty. When the refs hold a recorder and a connection, \<^verbatim>\<open>stop()\<close> and
  \<^verbatim>\<open>finish()\<close> are both called, also when the other one throws; with empty refs no object
  is touched. A second call right after changes nothing and throws nothing.
  \<^verbatim>\<open>stopListening\<close> wraps none of its calls and resets no text: when its calls return, it
  completes with \<^verbatim>\<open>isListening\<close> false and the buffer and the transcript as they were, and
  so does a second call.
\<close>

theorem cleanupVoice_safe:
  "fst (cleanupVoice o1 o2 w) = None
   \<and> isVoiceActive (snd (cleanupVoice o1 o2 w)) = False
   \<and> recorderRef (snd (cleanupVoice o1 o2 w)) = None
   \<and> dgConnRef (snd (cleanupVoice o1 o2 w)) = None
   \<and> bufferRef (snd (cleanupVoice o1 o2 w)) = []
   \<and> liveTranscript (snd (cleanupVoice o1 o2 w)) = []
   \<and> (recorderRef w = Some k \<longrightarrow>
        stopCalls (objs (snd (cleanupVoice o1 o2 w)) k) = Suc (stopCalls (objs w k)))
   \<and> (dgConnRef w = Some k \<longrightarrow>
        finishCalls (objs (snd (cleanupVoice o1 o2 w)) k) = Suc (finishCalls (objs w k)))
   \<and> (recorderRef w = None \<and> dgConnRef w = None \<longrightarrow>
        objs (snd (cleanupVoice o1 o2 w)) = objs w)
   \<and> cleanupVoice o3 o4 (snd (cleanupVoice o1 o2 w)) = (None, snd (cleanupVoice o1 o2 w))
   \<and> fst (stopListening Returns Returns h) = None
   \<and> isListening (snd (stopListening Returns Returns h)) = False
   \<and> lt_bufferRef (snd (stopListening Returns Returns h)) = lt_bufferRef h
   \<and> transcript_state (snd (stopListening Returns Returns h)) = transcript_state h
   \<and> fst (stopListening Returns Returns (snd (stopListening Returns Returns h))) = None"
proof -
  have a: "fst (cleanupVoice o1 o2 w) = None"
    by (simp add: cleanupVoice_eq)
  have b: "isVoiceActive (snd (cleanupVoice o1 o2 w)) = False
     \<and> recorderRef (snd (cleanupVoice o1 o2 w)) = None
     \<and> dgConnRef (snd (cleanupVoice o1 o2 w)) = None
     \<and> bufferRef (snd (cleanupVoice o1 o2 w)) = []
     \<and> liveTranscript (snd (cleanupVoice o1 o2 w)) = []"
    by (simp add: cleanupVoice_eq Let_def)
  have c: "recorderRef w = Some k \<longrightarrow>
        stopCalls (objs (snd (cleanupVoice o1 o2 w)) k) = Suc (stopCalls (objs w k))"
    by (auto simp: cleanupVoice_eq Let_def snd_MediaRecorder_stop snd_connection_finish
        objs_update_obj refs_update_obj split: option.splits)
  have d: "dgConnRef w = Some k \<longrightarrow>
        finishCalls (objs (snd (cleanupVoice o1 o2 w)) k) = Suc (finishCalls (objs w k))"
    by (auto simp: cleanupVoice_eq Let_def snd_MediaRecorder_stop snd_connection_finish
        objs_update_obj refs_update_obj split: option.splits)
  have e: "recorderRef w = None \<and> dgConnRef w = None \<longrightarrow>
        objs (snd (cleanupVoice o1 o2 w)) = objs w"
    by (simp add: cleanupVoice_eq Let_def)
  have f: "cleanupVoice o3 o4 (snd (cleanupVoice o1 o2 w)) = (None, snd (cleanupVoice o1 o2 w))"
    by (simp add: cleanupVoice_eq [of o3 o4] b Let_def)
  have g: "fst (stopListening Returns Returns h) = None
     \<and> isListening (snd (stopListening Returns Returns h)) = False
     \<and> lt_bufferRef (snd (stopListening Returns Returns h)) = lt_bufferRef h
     \<and> transcript_state (snd (stopListening Returns Returns h)) = transcript_state h"
    by (simp add: stopListening_def seq_def modify_def ret_def lt_recorder_stop_def
        lt_connection_finish_def Let_def split: option.splits)
  have i: "fst (stopListening Returns Returns (snd (stopListening Returns Returns h))) = None"
    by (simp add: stopListening_def seq_def modify_def ret_def lt_recorder_stop_def
        lt_connection_finish_def Let_def split: option.splits)
  from a b c d e f g i show ?thesis
    by (intro conjI) simp_all
qed

text \<open>
  The amended claim C2 on a streaming session whose recorder throws on \<^verbatim>\<open>stop()\<close>: the
  connection is finished all the same.
\<close>

theorem cleanupVoice_safe_witness:
  "recorderRef (run streaming_session initial_hook) = Some 0
   \<and> dgConnRef (run streaming_session initial_hook) = Some 0
   \<and> fst (cleanupVoice Throws Returns (run streaming_session initial_hook)) = None
   \<and> stopCalls (objs (snd (cleanupVoice Throws Returns (run streaming_session initial_hook))) 0)
       = Suc (stopCalls (objs (run streaming_session initial_hook) 0))
   \<and> finishCalls (objs (snd (cleanupVoice Throws Returns (run streaming_session initial_hook))) 0)
       = Suc (finishCalls (objs (run streaming_session initial_hook) 0))"
proof -
  have h1: "recorderRef (run streaming_session initial_hook) = Some 0" by code_simp
  have h2: "dgConnRef (run streaming_session initial_hook) = Some 0" by code_simp
  show ?thesis
    using h1 h2 cleanupVoice_safe [of Throws Returns "run streaming_session initial_hook" 0]
    by blast
qed

text \<open>
  Claim C2 as stated fails for \<^verbatim>\<open>stopListening\<close>: when \<^verbatim>\<open>finish()\<close> throws, the error
  leaves \<^verbatim>\<open>stopListening\<close> and \<^verbatim>\<open>isListening\<close> stays true; and after a session that
  committed \<^verbatim>\<open>hello\<close>, stopping leaves the buffer and the transcript at \<^verbatim>\<open>hello\<close>.
  In \<^verbatim>\<open>cleanupVoice\<close> the microphone is released by the recorder's \<^verbatim>\<open>stop\<close> event only:
  when \<^verbatim>\<open>stop()\<close> throws on a streaming session, no such event is queued and the stream
  stays live, with the ref to the recorder gone.
\<close>

theorem stopListening_C2_counterexample:
  "fst (stopListening Returns Throws (lt_run listening_session initial_listen))
     = Some (Error ''finish'')
   \<and> isListening (snd (stopListening Returns Throws (lt_run listening_session initial_listen)))
   \<and> lt_bufferRef (lt_run (listening_session @
        [LtTranscript (FinalText ''hello''), StopListening Returns Returns]) initial_listen)
       = ''hello''
   \<and> transcript_state (lt_run (listening_session @
        [LtTranscript (FinalText ''hello''), StopListening Returns Returns]) initial_listen)
       = ''hello''
   \<and> streamLive (objs (run (streaming_session @ [StopVoice Throws Returns]) initial_hook) 0)
   \<and> \<not> stopScheduled
        (objs (run (streaming_session @ [StopVoice Throws Returns]) initial_hook) 0)
   \<and> recorderRef (run (streaming_session @ [StopVoice Throws Returns]) initial_hook) = None"
  by code_simp

text \<open>
  Claim C3 at its failing input. \<^verbatim>\<open>stopVoice\<close> is called while the token request of
  \<^verbatim>\<open>startVoice\<close> is pending: the hook is inactive and both refs are empty. The token then
  arrives, the microphone is granted and the connection opens: \<^verbatim>\<open>startVoice\<close> goes on
  without any test, so both refs point to new objects, the microphone is held, the recorder
  is recording and a chunk is sent, while \<^verbatim>\<open>isVoiceActive\<close> is still false.
\<close>

theorem late_token_resurrects_session:
  "\<not> isVoiceActive (run stop_while_fetching initial_hook)
   \<and> recorderRef (run stop_while_fetching initial_hook) = None
   \<and> dgConnRef (run stop_while_fetching initial_hook) = None
   \<and> phase (objs (run stop_while_fetching initial_hook) 0) = AwaitingToken
   \<and> recorderRef (run (stop_while_fetching @ late_resolution) initial_hook) = Some 0
   \<and> dgConnRef (run (stop_while_fetching @ late_resolution) initial_hook) = Some 0
   \<and> streamLive (objs (run (stop_while_fetching @ late_resolution) initial_hook) 0)
   \<and> recorder (objs (run (stop_while_fetching @ late_resolution) initial_hook) 0) = Recording
   \<and> chunksSent (objs (run (stop_while_fetching @ late_resolution) initial_hook) 0) = 1
   \<and> \<not> isVoiceActive (run (stop_while_fetching @ late_resolution) initial_hook)"
  by code_simp

section \<open>Capture and the Open event (C4)\<close>

lemma capturing_implies_open_fields:
  "capturing_implies_open (w\<lparr>recorderRef := a\<rparr>) = capturing_implies_open w"
  "capturing_implies_open (w\<lparr>dgConnRef := a\<rparr>) = capturing_implies_open w"
  "capturing_implies_open (w\<lparr>bufferRef := b\<rparr>) = capturing_implies_open w"
  "capturing_implies_open (w\<lparr>isVoiceActive := c\<rparr>) = capturing_implies_open w"
  "capturing_implies_open (w\<lparr>liveTranscript := b\<rparr>) = capturing_implies_open w"
  "capturing_implies_open (w\<lparr>nextCall := n\<rparr>) = capturing_implies_open w"
  "capturing_implies_open (w\<lparr>onTranscriptUpdate_calls := l\<rparr>) = capturing_implies_open w"
  "capturing_implies_open (w\<lparr>onError_calls := l\<rparr>) = capturing_implies_open w"
  by (simp_all add: capturing_implies_open_def)

lemma capturing_implies_open_update_obj:
  assumes "capturing_implies_open w"
    and "recorder (u (objs w k)) = Recording \<or> stopScheduled (u (objs w k))
         \<or> 0 < chunksSent (u (objs w k)) \<longrightarrow> connOpen (u (objs w k))"
  shows "capturing_implies_open (update_obj k u w)"
  using assms by (simp add: capturing_implies_open_def objs_update_obj)

lemma capturing_implies_open_at:
  assumes "capturing_implies_open w"
    and "recorder (objs w k) = Recording \<or> stopScheduled (objs w k) \<or> 0 < chunksSent (objs w k)"
  shows "connOpen (objs w k)"
  using assms by (auto simp: capturing_implies_open_def)

lemma capturing_implies_open_stop:
  assumes "capturing_implies_open w"
  shows "capturing_implies_open (snd (MediaRecorder_stop oc k w))"
  unfolding snd_MediaRecorder_stop
  by (rule capturing_implies_open_update_obj [OF assms])
    (insert capturing_implies_open_at [OF assms, of k], auto)

lemma capturing_implies_open_finish:
  assumes "capturing_implies_open w"
  shows "capturing_implies_open (snd (connection_finish oc k w))"
  unfolding snd_connection_finish
  by (rule capturing_implies_open_update_obj [OF assms])
    (insert capturing_implies_open_at [OF assms, of k], auto)

lemma capturing_implies_open_cleanupVoice:
  assumes "capturing_implies_open w"
  shows "capturing_implies_open (snd (cleanupVoice o1 o2 w))"
proof -
  let ?w1 = "case recorderRef w of None \<Rightarrow> w | Some k \<Rightarrow> snd (MediaRecorder_stop o1 k w)"
  let ?w2 = "case dgConnRef ?w1 of None \<Rightarrow> ?w1 | Some k \<Rightarrow> snd (connection_finish o2 k ?w1)"
  have 1: "capturing_implies_open ?w1"
    using assms by (auto split: option.splits intro: capturing_implies_open_stop)
  have 2: "capturing_implies_open ?w2"
    using 1 by (auto split: option.splits intro: capturing_implies_open_finish)
  have "snd (cleanupVoice o1 o2 w) = ?w2\<lparr>recorderRef := None, dgConnRef := None,
      isVoiceActive := False, liveTranscript := [], bufferRef := []\<rparr>"
    by (simp add: cleanupVoice_eq Let_def)
  with 2 show ?thesis
    by (simp add: capturing_implies_open_fields)
qed

lemma capturing_implies_open_startVoice:
  assumes "capturing_implies_open w"
  shows "capturing_implies_open (snd (startVoice o1 o2 w))"
proof -
  let ?w = "(snd (cleanupVoice o1 o2 w))\<lparr>isVoiceActive := True, liveTranscript := [],
           bufferRef := []\<rparr>"
  have inv: "capturing_implies_open ?w"
    using capturing_implies_open_cleanupVoice [OF assms]
    by (simp add: capturing_implies_open_fields)
  have "capturing_implies_open (update_obj (nextCall (snd (cleanupVoice o1 o2 w)))
          (\<lambda>r. r\<lparr>phase := AwaitingToken\<rparr>) ?w)"
    by (rule capturing_implies_open_update_obj [OF inv])
      (insert capturing_implies_open_at [OF inv, of "nextCall (snd (cleanupVoice o1 o2 w))"],
        auto)
  then show ?thesis
    by (simp add: snd_startVoice capturing_implies_open_fields)
qed

lemma capturing_implies_open_token:
  assumes "capturing_implies_open w"
  shows "capturing_implies_open (snd (startVoice_token k r w))"
proof -
  have *: "capturing_implies_open (update_obj k (\<lambda>r. r\<lparr>phase := p\<rparr>) w')"
    if "capturing_implies_open w'" for p w'
    by (rule capturing_implies_open_update_obj [OF that])
      (insert capturing_implies_open_at [OF that, of k], auto)
  show ?thesis
    using assms
    by (cases r) (auto simp: startVoice_token_def Let_def capturing_implies_open_fields intro!: *)
qed

lemma capturing_implies_open_microphone:
  assumes "capturing_implies_open w"
  shows "capturing_implies_open (snd (startVoice_microphone k r w))"
proof (cases r)
  case Granted
  have "capturing_implies_open (update_obj k (\<lambda>r. r\<lparr>phase := Wired, streamLive := True,
          recorder := Inactive\<rparr>) w)"
    by (rule capturing_implies_open_update_obj [OF assms])
      (insert capturing_implies_open_at [OF assms, of k], auto)
  with Granted show ?thesis
    by (simp add: startVoice_microphone_def capturing_implies_open_fields)
next
  case (Denied err)
  let ?w = "w\<lparr>onError_calls := onError_calls w @ [''Could not access microphone: '' @ err],
              isVoiceActive := False\<rparr>"
  have inv: "capturing_implies_open ?w"
    using assms by (simp add: capturing_implies_open_fields)
  have "capturing_implies_open (update_obj k (\<lambda>r. r\<lparr>phase := Returned\<rparr>) ?w)"
    by (rule capturing_implies_open_update_obj [OF inv])
      (insert capturing_implies_open_at [OF inv, of k], auto)
  with Denied show ?thesis
    by (simp add: startVoice_microphone_def)
qed

lemma capturing_implies_open_step:
  assumes "capturing_implies_open w"
  shows "capturing_implies_open (step ev w)"
proof (cases ev)
  case (StartVoice o1 o2)
  with assms show ?thesis
    by (simp add: deliver_def capturing_implies_open_startVoice)
next
  case (StopVoice o1 o2)
  with assms show ?thesis
    by (simp add: deliver_def capturing_implies_open_cleanupVoice)
next
  case (TokenResponse k r)
  with assms show ?thesis
    by (simp add: deliver_def capturing_implies_open_token)
next
  case (MicrophoneResponse k r)
  with assms show ?thesis
    by (simp add: deliver_def capturing_implies_open_microphone)
next
  case (Open k)
  let ?w = "update_obj k (\<lambda>r. r\<lparr>connOpen := True\<rparr>) w"
  have inv: "capturing_implies_open ?w"
    by (rule capturing_implies_open_update_obj [OF assms]) simp
  have "capturing_implies_open (snd (MediaRecorder_start k ?w))"
  proof (cases "recorder (objs ?w k) = Inactive")
    case True
    have "capturing_implies_open (update_obj k (\<lambda>r. r\<lparr>recorder := Recording\<rparr>) ?w)"
      by (rule capturing_implies_open_update_obj [OF inv]) (simp add: objs_update_obj)
    with True show ?thesis by (simp add: MediaRecorder_start_def)
  next
    case False
    with inv show ?thesis by (simp add: MediaRecorder_start_def)
  qed
  with Open assms show ?thesis
    by (simp add: deliver_def onOpen_def)
next
  case (Transcript k d)
  have "capturing_implies_open (snd (onTranscript d w))"
    using assms by (simp add: onTranscript_def Let_def capturing_implies_open_fields)
  with Transcript assms show ?thesis
    by (simp add: deliver_def)
next
  case (DataAvailable k)
  show ?thesis
  proof (cases "recorder (objs w k) = Recording \<or> stopScheduled (objs w k)")
    case True
    then have "connOpen (objs w k)"
      using capturing_implies_open_at [OF assms, of k] by blast
    then have "capturing_implies_open
        (update_obj k (\<lambda>r. r\<lparr>chunksSent := Suc (chunksSent r)\<rparr>) w)"
      by (intro capturing_implies_open_update_obj [OF assms]) simp
    with DataAvailable True show ?thesis
      by (simp add: deliver_def onDataAvailable_def modify_def)
  next
    case False
    with DataAvailable assms show ?thesis by simp
  qed
next
  case (RecorderStop k oc)
  let ?w = "update_obj k (\<lambda>r. r\<lparr>stopScheduled := False\<rparr>) w"
  have inv: "capturing_implies_open ?w"
    by (rule capturing_implies_open_update_obj [OF assms])
      (insert capturing_implies_open_at [OF assms, of k], auto)
  let ?v = "update_obj k (\<lambda>r. r\<lparr>streamLive := False\<rparr>) (?w\<lparr>isVoiceActive := False\<rparr>)"
  have inv': "capturing_implies_open (?w\<lparr>isVoiceActive := False\<rparr>)"
    using inv by (simp add: capturing_implies_open_fields)
  have "capturing_implies_open ?v"
    by (rule capturing_implies_open_update_obj [OF inv'])
      (insert capturing_implies_open_at [OF inv', of k], auto)
  then have "capturing_implies_open (snd (connection_finish oc k ?v))"
    by (rule capturing_implies_open_finish)
  then have "capturing_implies_open (snd (recorder_onstop oc k ?w))"
    by (simp add: recorder_onstop_def seq_modify try_catch_def)
  with RecorderStop assms show ?thesis
    by (simp add: deliver_def)
qed

lemma capturing_implies_open_run:
  assumes "capturing_implies_open w"
  shows "capturing_implies_open (run es w)"
  using assms
proof (induction es arbitrary: w)
  case Nil
  then show ?case by (simp add: run_def)
next
  case (Cons ev es)
  have "capturing_implies_open (run es (step ev w))"
    by (rule Cons.IH) (rule capturing_implies_open_step [OF Cons.prems])
  then show ?case by (simp add: run_def)
qed

lemma capturing_implies_open_initial: "capturing_implies_open initial_hook"
  by (simp add: capturing_implies_open_def initial_hook_def no_objects_def)

text \<open>
  Claim C4, as amended. In \<^verbatim>\<open>useDeepgramVoice\<close>, whatever the events, a recorder that is
  recording or has sent a chunk belongs to a connection that has opened. In
  \<^verbatim>\<open>useLiveTranscription\<close> the recorder is started as soon as the microphone is granted,
  whatever the state of the connection, which that step does not read or change.
\<close>

theorem capture_only_after_open:
  "(recorder (objs (run es initial_hook) k) = Recording
      \<or> 0 < chunksSent (objs (run es initial_hook) k)
     \<longrightarrow> connOpen (objs (run es initial_hook) k))
   \<and> (lt_phase h = AwaitingMicrophone \<longrightarrow>
        mediaRecorderRef (lt_step (LtMicrophoneResponse Granted) h)
          = Some \<lparr>mr_state = Recording, mr_stopCalls = 0\<rparr>
        \<and> deepgramRef (lt_step (LtMicrophoneResponse Granted) h) = deepgramRef h)"
proof -
  have "capturing_implies_open (run es initial_hook)"
    by (rule capturing_implies_open_run) (rule capturing_implies_open_initial)
  then have a: "recorder (objs (run es initial_hook) k) = Recording
      \<or> 0 < chunksSent (objs (run es initial_hook) k)
     \<longrightarrow> connOpen (objs (run es initial_hook) k)"
    using capturing_implies_open_at [of "run es initial_hook" k] by blast
  have b: "lt_phase h = AwaitingMicrophone \<longrightarrow>
        mediaRecorderRef (lt_step (LtMicrophoneResponse Granted) h)
          = Some \<lparr>mr_state = Recording, mr_stopCalls = 0\<rparr>
        \<and> deepgramRef (lt_step (LtMicrophoneResponse Granted) h) = deepgramRef h"
    by (simp add: startListening_microphone_def deliver_def)
  from a b show ?thesis by (intro conjI)
qed

text \<open>The amended claim C4 on a streaming session and on a granted microphone.\<close>

theorem capture_only_after_open_witness:
  "recorder (objs (run streaming_session initial_hook) 0) = Recording
   \<and> connOpen (objs (run streaming_session initial_hook) 0)
   \<and> lt_phase (lt_run [StartListening, LtTokenResponse (TokenJson (Some ''tok''))] initial_listen)
       = AwaitingMicrophone
   \<and> mediaRecorderRef (lt_step (LtMicrophoneResponse Granted)
        (lt_run [StartListening, LtTokenResponse (TokenJson (Some ''tok''))] initial_listen))
       = Some \<lparr>mr_state = Recording, mr_stopCalls = 0\<rparr>"
proof -
  have h1: "recorder (objs (run streaming_session initial_hook) 0) = Recording"
    by code_simp
  have h2: "lt_phase (lt_run [StartListening, LtTokenResponse (TokenJson (Some ''tok''))]
              initial_listen) = AwaitingMicrophone"
    by code_simp
  show ?thesis
    using h1 h2 capture_only_after_open [of streaming_session 0
        "lt_run [StartListening, LtTokenResponse (TokenJson (Some ''tok''))] initial_listen"]
    by blast
qed

text \<open>
  Claim C4 as stated fails for \<^verbatim>\<open>useLiveTranscription\<close>: with the token and the microphone
  granted and no Open event delivered, the recorder is recording and a chunk has been sent
  to the connection.
\<close>

theorem live_capture_before_open_counterexample:
  "mediaRecorderRef (lt_run (listening_session @ [LtDataAvailable 1]) initial_listen)
     = Some \<lparr>mr_state = Recording, mr_stopCalls = 0\<rparr>
   \<and> deepgramRef (lt_run (listening_session @ [LtDataAvailable 1]) initial_listen)
     = Some \<lparr>lc_finishCalls = 0, lc_chunks = 1, lc_open = False\<rparr>"
  by code_simp

end
